(* ===== verification/Prelude.thy ===== *)
theory Prelude
  imports Complex_Main "HOL-Library.Word" "HOL-Library.Multiset" "HOL-Library.Sublist"
begin

text \<open>
  Shared vocabulary of the development: the machine-integer types of the C++ fields,
  the error-propagating bind used where the C++ code throws, decimal printing as done by
  \<open>std::to_string\<close>, and the generic list and word lemmas the component theories use.
  The collection \<open>eval_simps\<close> gathers the definitions unfolded when a component is
  evaluated on a concrete input.
\<close>

named_theorems eval_simps "definitions unfolded to evaluate the model on concrete inputs"

type_synonym u8 = "8 word"
type_synonym u16 = "16 word"
type_synonym u32 = "32 word"
type_synonym c_int = "32 word" \<comment> \<open>a C \<open>int\<close>, read with \<open>sint\<close>\<close>

subsection \<open>Exceptions as sums\<close>

text \<open>
  A C++ statement that may throw is a value of \<open>'e + 'a\<close>, \<open>Inl\<close> the exception. The
  next statement runs only on \<open>Inr\<close>, as \<open>bindE\<close> says.
\<close>

definition bindE :: "'e + 'a \<Rightarrow> ('a \<Rightarrow> 'e + 'b) \<Rightarrow> 'e + 'b" where
  "bindE m f = (case m of Inl e \<Rightarrow> Inl e | Inr a \<Rightarrow> f a)"

lemma bindE_Inl [simp]: "bindE (Inl e) f = Inl e"
  by (simp add: bindE_def)

lemma bindE_Inr [simp]: "bindE (Inr a) f = f a"
  by (simp add: bindE_def)

lemma bindE_InlE:
  "bindE m f = Inl e \<Longrightarrow> (m = Inl e \<Longrightarrow> P) \<Longrightarrow> (\<And>x. m = Inr x \<Longrightarrow> f x = Inl e \<Longrightarrow> P) \<Longrightarrow> P"
  by (cases m) auto

lemma bindE_eq_Inr_iff:
  "bindE m f = Inr b \<longleftrightarrow> (\<exists>a. m = Inr a \<and> f a = Inr b)"
  by (cases m) simp_all

subsection \<open>Decimal printing\<close>

text \<open>\<open>std::to_string\<close> of a non-negative integer: its decimal digits, most significant first.\<close>

fun nat_to_string :: "nat \<Rightarrow> string" where
  "nat_to_string n =
     (if n < 10 then [char_of (48 + n)]
      else nat_to_string (n div 10) @ [char_of (48 + n mod 10)])"

declare nat_to_string.simps [simp del]

definition int_to_string :: "int \<Rightarrow> string" where
  "int_to_string i =
     (if i < 0 then CHR ''-'' # nat_to_string (nat (- i)) else nat_to_string (nat i))"

text \<open>Reading decimal digits back, the inverse used to state the round trip.\<close>

definition digit_val :: "char \<Rightarrow> nat" where
  "digit_val c = of_char c - (48::nat)"

definition string_to_nat :: "string \<Rightarrow> nat" where
  "string_to_nat s = foldl (\<lambda>acc c. 10 * acc + digit_val c) 0 s"

definition is_digit :: "char \<Rightarrow> bool" where
  "is_digit c \<longleftrightarrow> (48::nat) \<le> of_char c \<and> of_char c \<le> (57::nat)"

lemma of_char_digit [simp]: "d < 10 \<Longrightarrow> of_char (char_of (48 + d) :: char) = (48 + d :: nat)"
  by simp

lemma digit_chars [simp]:
  "char_of (48::nat) = CHR ''0''" "char_of (49::nat) = CHR ''1''" "char_of (50::nat) = CHR ''2''"
  "char_of (51::nat) = CHR ''3''" "char_of (52::nat) = CHR ''4''" "char_of (53::nat) = CHR ''5''"
  "char_of (54::nat) = CHR ''6''" "char_of (55::nat) = CHR ''7''" "char_of (56::nat) = CHR ''8''"
  "char_of (57::nat) = CHR ''9''"
  by code_simp+

lemma string_to_nat_snoc:
  "string_to_nat (s @ [c]) = 10 * string_to_nat s + digit_val c"
  by (simp add: string_to_nat_def)

lemma nat_to_string_roundtrip: "string_to_nat (nat_to_string n) = n"
proof (induction n rule: nat_to_string.induct)
  case (1 n)
  show ?case
  proof (cases "n < 10")
    case True
    then show ?thesis
      by (simp add: nat_to_string.simps [of n] string_to_nat_def digit_val_def)
  next
    case False
    with "1.IH" show ?thesis
      by (simp add: nat_to_string.simps [of n] string_to_nat_snoc digit_val_def)
  qed
qed

lemma nat_to_string_digits: "\<forall>c \<in> set (nat_to_string n). is_digit c"
proof (induction n rule: nat_to_string.induct)
  case (1 n)
  then show ?case
    by (subst nat_to_string.simps) (auto simp: is_digit_def)
qed

lemma nat_to_string_nonempty: "nat_to_string n \<noteq> []"
  by (subst nat_to_string.simps) simp

lemma nat_to_string_inj: "nat_to_string m = nat_to_string n \<longleftrightarrow> m = n"
  by (metis nat_to_string_roundtrip)

subsection \<open>Lists and multisets\<close>

lemma subseq_distinct: "subseq xs ys \<Longrightarrow> distinct ys \<Longrightarrow> distinct xs"
  by (induction rule: list_emb.induct) (auto dest: list_emb_set)

lemma distinct_count_le1: "distinct xs \<longleftrightarrow> (\<forall>x. count (mset xs) x \<le> 1)"
proof (induction xs)
  case (Cons a xs)
  show ?case
  proof
    assume "distinct (a # xs)" then show "\<forall>x. count (mset (a # xs)) x \<le> 1"
      using Cons.IH by (auto simp: count_eq_zero_iff)
  next
    assume h: "\<forall>x. count (mset (a # xs)) x \<le> 1"
    have c0: "count (mset xs) a = 0" using h [rule_format, of a] by simp
    moreover have "count (mset xs) x \<le> 1" for x
    proof (cases "x = a")
      case True
      then show ?thesis by (simp only: c0)
    next
      case False
      then show ?thesis using h [rule_format, of x] by simp
    qed
    ultimately show "distinct (a # xs)" using Cons.IH by (simp add: count_eq_zero_iff)
  qed
qed simp

lemma mset_le_distinct: "mset xs \<subseteq># mset ys \<Longrightarrow> distinct ys \<Longrightarrow> distinct xs"
proof -
  assume le: "mset xs \<subseteq># mset ys" and d: "distinct ys"
  have "count (mset xs) x \<le> 1" for x
    using mset_subset_eq_count [OF le, of x] d by (simp only: distinct_count_le1) (meson le_trans)
  then show ?thesis by (simp add: distinct_count_le1)
qed

end
