(* ===== verification/Binary64.thy ===== *)
theory Binary64
  imports Prelude
begin

text \<open>
  IEEE-754 binary64 arithmetic as the scoring code uses it: values are rationals, and
  each C++ \<open>double\<close> literal and each \<open>+\<close> is rounded to the nearest binary64 value,
  ties to even (the default rounding mode). The rounding is executable: the exponent is
  read off the bit lengths of numerator and denominator, and the significand is rounded
  at 53 bits (52 stored fraction bits), with the subnormal range below \<open>2^-1022\<close>.
  Overflow to infinity is not modelled: every value the scoring code forms lies in
  \<open>[0, 2]\<close>. The lemmas show that the exponent is the binary logarithm, that rounding
  leaves representable values alone and that it computes on dyadic rationals
  \<open>n / 2^K\<close> by integer division, which is how the scores are evaluated.
\<close>

function bitlen :: "int \<Rightarrow> nat" where
  "bitlen i = (if i \<le> 0 then 0 else Suc (bitlen (i div 2)))"
  by pat_completeness auto
termination
  by (relation "measure (\<lambda>i. nat i)") auto

declare bitlen.simps [simp del]

text \<open>For \<open>x > 0\<close>, the \<open>e\<close> with \<open>2^e \<le> x < 2^(e+1)\<close>.\<close>

definition exponent_of :: "rat \<Rightarrow> int" where
  "exponent_of x =
     (let (p, q) = quotient_of x;
          e0 = int (bitlen p) - int (bitlen q)
      in if 2 powi e0 \<le> x then e0 else e0 - 1)"

definition round_half_even :: "rat \<Rightarrow> int" where
  "round_half_even r =
     (let f = \<lfloor>r\<rfloor>; d = r - of_int f
      in if d < 1/2 then f else if 1/2 < d then f + 1 else if even f then f else f + 1)"

definition round_pos :: "rat \<Rightarrow> rat" where
  "round_pos x =
     (let e = max (exponent_of x) (-1022); u = 2 powi (e - 52)
      in of_int (round_half_even (x / u)) * u)"

definition round_binary64 :: "rat \<Rightarrow> rat" where
  "round_binary64 x =
     (if x = 0 then 0 else if 0 < x then round_pos x else - round_pos (- x))"

text \<open>A \<open>double\<close> literal of the source, and binary64 addition.\<close>

definition dlit :: "rat \<Rightarrow> rat" where
  "dlit r = round_binary64 r"

definition dadd :: "rat \<Rightarrow> rat \<Rightarrow> rat" where
  "dadd a b = round_binary64 (a + b)"

text \<open>Rounding \<open>n / 2^j\<close> to an integer, ties to even, by integer division.\<close>

definition round_half_even_shift :: "int \<Rightarrow> nat \<Rightarrow> int" where
  "round_half_even_shift n j =
     (let q = n div 2 ^ j; r = n mod 2 ^ j
      in if 2 * r < 2 ^ j then q else if 2 ^ j < 2 * r then q + 1
         else if even q then q else q + 1)"

subsection \<open>Values on a fixed grid\<close>

text \<open>
  \<open>dyadic n K\<close> is the value \<open>n \<cdot> 2^-K\<close>. The scoring values are all
  multiples of \<open>2^-56\<close>; on such a grid a binary64 sum is an integer sum followed by
  an integer rounding, which is how concrete scores are evaluated.
\<close>

definition dyadic :: "int \<Rightarrow> nat \<Rightarrow> rat" where
  "dyadic n K = of_int n / 2 ^ K"

definition round_grid :: "int \<Rightarrow> int" where
  "round_grid n =
     (if n < 2 ^ 53 then n
      else round_half_even_shift n (bitlen n - 53) * 2 ^ (bitlen n - 53))"

subsection \<open>Bit length and exponent\<close>

lemma bitlen_bounds: "0 < i \<Longrightarrow> 2 ^ (bitlen i - 1) \<le> i \<and> i < 2 ^ bitlen i"
proof (induction i rule: bitlen.induct)
  case (1 i)
  show ?case
  proof (cases "i div 2 = 0")
    case True
    with "1.prems" have "i = 1" by auto
    then show ?thesis by (simp add: bitlen.simps)
  next
    case False
    with "1.prems" have pos: "0 < i div 2" by auto
    with "1.IH" "1.prems" have ih: "2 ^ (bitlen (i div 2) - 1) \<le> i div 2 \<and> i div 2 < 2 ^ bitlen (i div 2)"
      by simp
    have bl: "bitlen i = Suc (bitlen (i div 2))"
      using "1.prems" by (simp add: bitlen.simps [of i])
    have "0 < bitlen (i div 2)"
      using pos by (simp add: bitlen.simps [of "i div 2"])
    then have "2 ^ (bitlen i - 1) = 2 * (2::int) ^ (bitlen (i div 2) - 1)"
      by (simp add: bl power_Suc [symmetric])
    with ih show ?thesis
      by (auto simp: bl) linarith+
  qed
qed

lemma powi_nat_diff: "(2::rat) powi (int a - int b) = 2 ^ a / 2 ^ b"
  by (simp add: power_int_diff)

lemma frac_less_cross: "0 < (b::rat) \<Longrightarrow> 0 < d \<Longrightarrow> a / b < c / d \<longleftrightarrow> a * d < c * b"
  by (simp add: field_simps)

lemma int_cross_rat: "(a::int) * d < c * b \<Longrightarrow> (of_int a::rat) * of_int d < of_int c * of_int b"
  by (metis of_int_less_iff of_int_mult)

lemma exponent_of_bounds:
  assumes "0 < x"
  shows "2 powi exponent_of x \<le> x \<and> x < 2 powi (exponent_of x + 1)"
proof -
  obtain p q where qo: "quotient_of x = (p, q)" by (cases "quotient_of x")
  have q: "0 < q" using qo by (rule quotient_of_denom_pos)
  have x: "x = of_int p / of_int q" using qo by (rule quotient_of_div)
  with assms q have p: "0 < p" by (simp add: zero_less_divide_iff)
  define a where "a = bitlen p"
  define b where "b = bitlen q"
  from bitlen_bounds [OF p] have pa: "2 ^ (a - 1) \<le> p" "p < 2 ^ a" by (simp_all add: a_def)
  from bitlen_bounds [OF q] have qb: "2 ^ (b - 1) \<le> q" "q < 2 ^ b" by (simp_all add: b_def)
  have a1: "1 \<le> a" using pa by (cases a) auto
  have b1: "1 \<le> b" using qb by (cases b) auto
  define e0 where "e0 = int a - int b"
  have "(2::int) ^ (a - 1) * q < 2 ^ (a - 1) * 2 ^ b" using qb by simp
  also have "\<dots> \<le> p * 2 ^ b" using pa by simp
  finally have "of_int (2 ^ (a - 1)) * of_int q < of_int p * (of_int (2 ^ b) :: rat)"
    by (rule int_cross_rat)
  then have "(2::rat) ^ (a - 1) / 2 ^ b < of_int p / of_int q"
    using q by (simp add: frac_less_cross)
  moreover have "e0 - 1 = int (a - 1) - int b" using a1 by (simp add: e0_def)
  ultimately have lo: "2 powi (e0 - 1) < x"
    by (simp only: x powi_nat_diff)
  have "p * (2::int) ^ (b - 1) < 2 ^ a * 2 ^ (b - 1)" using pa by simp
  also have "\<dots> \<le> 2 ^ a * q" using qb by simp
  finally have "of_int p * of_int (2 ^ (b - 1)) < of_int (2 ^ a) * (of_int q :: rat)"
    by (rule int_cross_rat)
  then have "of_int p / of_int q < (2::rat) ^ a / 2 ^ (b - 1)"
    using q by (simp add: frac_less_cross)
  moreover have "e0 + 1 = int a - int (b - 1)" using b1 by (simp add: e0_def)
  ultimately have hi: "x < 2 powi (e0 + 1)"
    by (simp only: x powi_nat_diff)
  have ex: "exponent_of x = (if 2 powi e0 \<le> x then e0 else e0 - 1)"
    by (simp add: exponent_of_def qo e0_def a_def b_def)
  show ?thesis
  proof (cases "2 powi e0 \<le> x")
    case True
    with hi ex show ?thesis by simp
  next
    case False
    with lo ex show ?thesis by simp
  qed
qed

lemma pow2_less_iff: "(2::rat) powi m < 2 powi n \<longleftrightarrow> m < n"
proof
  assume "2 powi m < (2::rat) powi n"
  then show "m < n"
    using power_int_increasing [of n m "2::rat"] by (cases "n \<le> m") auto
next
  assume "m < n"
  then show "(2::rat) powi m < 2 powi n"
    by (rule power_int_strict_increasing) simp
qed

lemma pow2_pos: "0 < (2::rat) powi e"
  by simp

lemma exponent_of_unique:
  assumes "2 powi e \<le> x" "x < 2 powi (e + 1)"
  shows "exponent_of x = e"
proof -
  have "0 < x" using assms(1) pow2_pos [of e] by linarith
  then have b: "2 powi exponent_of x \<le> x" "x < 2 powi (exponent_of x + 1)"
    using exponent_of_bounds by blast+
  have "exponent_of x < e + 1" using b(1) assms(2) pow2_less_iff by fastforce
  moreover have "e < exponent_of x + 1" using assms(1) b(2) pow2_less_iff by fastforce
  ultimately show ?thesis by simp
qed

lemma round_half_even_of_int: "round_half_even (of_int m) = m"
  by (simp add: round_half_even_def)

lemma round_half_even_shift_eq:
  "round_half_even (of_int n / 2 ^ j) = round_half_even_shift n j"
proof -
  define q where "q = n div 2 ^ j"
  define r where "r = n mod 2 ^ j"
  have fl: "\<lfloor>(of_int n :: rat) / 2 ^ j\<rfloor> = q"
    using floor_divide_of_int_eq [of n "2 ^ j", where 'a = rat] by (simp add: q_def)
  have n: "n = q * 2 ^ j + r" by (simp add: q_def r_def div_mult_mod_eq)
  have d: "(of_int n :: rat) / 2 ^ j - of_int q = of_int r / 2 ^ j"
    by (simp add: n field_simps)
  have lt: "(of_int r :: rat) / 2 ^ j < 1 / 2 \<longleftrightarrow> 2 * r < 2 ^ j"
  proof -
    have "(of_int r :: rat) / 2 ^ j < 1 / 2 \<longleftrightarrow> of_int r * 2 < (2::rat) ^ j"
      by (simp add: frac_less_cross)
    also have "\<dots> \<longleftrightarrow> 2 * r < 2 ^ j"
      by (metis mult.commute of_int_less_iff of_int_mult of_int_numeral of_int_power)
    finally show ?thesis .
  qed
  have gt: "1 / 2 < (of_int r :: rat) / 2 ^ j \<longleftrightarrow> 2 ^ j < 2 * r"
  proof -
    have "1 / 2 < (of_int r :: rat) / 2 ^ j \<longleftrightarrow> (2::rat) ^ j < of_int r * 2"
      by (simp add: frac_less_cross)
    also have "\<dots> \<longleftrightarrow> 2 ^ j < 2 * r"
      by (metis mult.commute of_int_less_iff of_int_mult of_int_numeral of_int_power)
    finally show ?thesis .
  qed
  have "round_half_even (of_int n / 2 ^ j) =
      (if of_int r / 2 ^ j < (1/2::rat) then q else if 1/2 < (of_int r / 2 ^ j :: rat) then q + 1
       else if even q then q else q + 1)"
    by (simp only: round_half_even_def Let_def fl d)
  also have "\<dots> = round_half_even_shift n j"
    unfolding round_half_even_shift_def Let_def q_def [symmetric] r_def [symmetric]
    by (simp only: lt gt)
  finally show ?thesis .
qed

subsection \<open>Rounding dyadic rationals\<close>

lemma round_pos_normal:
  assumes "2 powi e \<le> x" "x < 2 powi (e + 1)" "-1022 \<le> e"
  shows "round_pos x = of_int (round_half_even (x / 2 powi (e - 52))) * 2 powi (e - 52)"
  using assms by (simp add: round_pos_def Let_def exponent_of_unique)

lemma of_int_pow2_le: "(2::int) ^ a \<le> n \<longleftrightarrow> (2::rat) ^ a \<le> of_int n"
  by (metis of_int_le_iff of_int_numeral of_int_power)

lemma of_int_pow2_less: "n < (2::int) ^ a \<longleftrightarrow> of_int n < (2::rat) ^ a"
  by (metis of_int_less_iff of_int_numeral of_int_power)

lemma pow2_neg_nat: "(2::rat) powi (- int k) = 1 / 2 ^ k"
  by (simp add: power_int_minus_divide)

text \<open>
  A value \<open>n / 2^K\<close> with \<open>53 + j\<close> significant bits loses its last \<open>j\<close> bits,
  rounded to even.
\<close>

lemma round_binary64_dyadic:
  assumes lo: "2 ^ (52 + j) \<le> n" and hi: "n < 2 ^ (53 + j)" and K: "int K \<le> 1074 + int j"
  shows "round_binary64 (of_int n / 2 ^ K) = of_int (round_half_even_shift n j) * 2 ^ j / 2 ^ K"
proof -
  define x where "x = (of_int n :: rat) / 2 ^ K"
  define e where "e = int (52 + j) - int K"
  have "(0::int) < 2 ^ (52 + j)" by simp
  with lo have n0: "0 < n" by linarith
  then have x0: "0 < x" by (simp add: x_def)
  have p1: "2 powi e = (2::rat) ^ (52 + j) / 2 ^ K"
    unfolding e_def by (rule powi_nat_diff)
  have p2: "2 powi (e + 1) = (2::rat) ^ (53 + j) / 2 ^ K"
  proof -
    have "e + 1 = int (53 + j) - int K" by (simp add: e_def)
    then show ?thesis by (simp only: powi_nat_diff)
  qed
  have p3: "2 powi (e - 52) = (2::rat) ^ j / 2 ^ K"
  proof -
    have "e - 52 = int j - int K" by (simp add: e_def)
    then show ?thesis by (simp only: powi_nat_diff)
  qed
  have "(2::rat) ^ (52 + j) \<le> of_int n" using lo of_int_pow2_le by blast
  then have "2 powi e \<le> x"
    unfolding p1 x_def by (rule divide_right_mono) simp
  moreover have "of_int n < (2::rat) ^ (53 + j)" using hi of_int_pow2_less by blast
  then have "x < 2 powi (e + 1)"
    unfolding p2 x_def by (rule divide_strict_right_mono) simp
  moreover have "-1022 \<le> e" using K by (simp add: e_def)
  ultimately have r: "round_pos x = of_int (round_half_even (x / 2 powi (e - 52))) * 2 powi (e - 52)"
    by (rule round_pos_normal)
  have q: "x / 2 powi (e - 52) = of_int n / 2 ^ j"
    unfolding p3 x_def by simp
  have "round_binary64 x = round_pos x" using x0 by (simp add: round_binary64_def)
  also have "\<dots> = of_int (round_half_even (of_int n / 2 ^ j)) * 2 powi (e - 52)"
    by (simp only: r q)
  also have "\<dots> = of_int (round_half_even_shift n j) * (2 ^ j / 2 ^ K)"
    by (simp only: round_half_even_shift_eq p3)
  finally show ?thesis by (simp add: x_def)
qed

text \<open>A value with at most 53 significant bits is left alone.\<close>

lemma round_binary64_exact:
  assumes n0: "0 < n" and hi: "n < 2 ^ 53" and K: "K \<le> 1074"
  shows "round_binary64 (of_int n / 2 ^ K) = of_int n / 2 ^ K"
proof -
  define x where "x = (of_int n :: rat) / 2 ^ K"
  have x0: "0 < x" using n0 by (simp add: x_def)
  define e where "e = max (exponent_of x) (-1022)"
  have "2 powi exponent_of x \<le> x" using exponent_of_bounds [OF x0] by blast
  moreover have "of_int n < (2::rat) ^ 53" using hi of_int_pow2_less by blast
  then have "x < 2 powi (int 53 - int K)"
    unfolding powi_nat_diff x_def by (rule divide_strict_right_mono) simp
  ultimately have "exponent_of x < int 53 - int K"
    using pow2_less_iff by fastforce
  then have m: "0 \<le> 52 - e - int K" using K by (simp add: e_def)
  define m where "m = nat (52 - e - int K)"
  have em: "e - 52 = - int (K + m)" using m by (simp add: m_def)
  have u: "2 powi (e - 52) = 1 / (2::rat) ^ (K + m)"
    unfolding em by (rule pow2_neg_nat)
  have q: "x / 2 powi (e - 52) = of_int (n * 2 ^ m)"
    unfolding u x_def by (simp add: power_add)
  have "round_pos x = of_int (round_half_even (x / 2 powi (e - 52))) * 2 powi (e - 52)"
    by (simp only: round_pos_def Let_def e_def)
  also have "\<dots> = of_int (n * 2 ^ m) * 2 powi (e - 52)"
    by (simp only: q round_half_even_of_int)
  also have "\<dots> = x"
    unfolding u x_def by (simp add: power_add)
  finally show ?thesis
    using x0 by (simp add: round_binary64_def x_def)
qed

subsection \<open>Evaluation on a fixed grid\<close>

lemma bitlen_pos: "0 < i \<Longrightarrow> bitlen i = Suc (bitlen (i div 2))"
  by (simp add: bitlen.simps [of i])

lemma bitlen_0: "bitlen 0 = 0"
  by (simp add: bitlen.simps)

lemma round_binary64_dyadic_eval:
  assumes "0 < n" "K \<le> 1074"
  shows "round_binary64 (dyadic n K) = dyadic (round_grid n) K"
proof (cases "n < 2 ^ 53")
  case True
  with assms show ?thesis by (simp add: round_grid_def dyadic_def round_binary64_exact)
next
  case False
  define j where "j = bitlen n - 53"
  have b: "2 ^ (bitlen n - 1) \<le> n" "n < 2 ^ bitlen n" using bitlen_bounds [OF assms(1)] by auto
  have "bitlen n > 53"
  proof (rule ccontr)
    assume "\<not> 53 < bitlen n"
    then have "(2::int) ^ bitlen n \<le> 2 ^ 53" by (intro power_increasing) simp_all
    with b(2) False show False by simp
  qed
  then have "bitlen n - 1 = 52 + j" "bitlen n = 53 + j" by (simp_all add: j_def)
  with b have "2 ^ (52 + j) \<le> n" "n < 2 ^ (53 + j)" by simp_all
  moreover have "int K \<le> 1074 + int j" using assms(2) by simp
  ultimately show ?thesis
    using False by (simp add: round_grid_def dyadic_def round_binary64_dyadic j_def)
qed

lemma dadd_dyadic:
  "dadd (dyadic a K) (dyadic b K) = round_binary64 (dyadic (a + b) K)"
  by (simp add: dadd_def dyadic_def add_divide_distrib)

lemma dyadic_0: "dyadic 0 K = 0"
  by (simp add: dyadic_def)

lemma min_dyadic: "min (dyadic a K) (dyadic b K) = dyadic (min a b) K"
  by (simp add: dyadic_def min_def divide_le_cancel)

lemma le_dyadic_iff: "r \<le> dyadic n K \<longleftrightarrow> r * 2 ^ K \<le> of_int n"
  by (simp add: dyadic_def pos_le_divide_eq)

lemma dyadic_le_iff: "dyadic n K \<le> r \<longleftrightarrow> of_int n \<le> r * 2 ^ K"
  by (simp add: dyadic_def pos_divide_le_eq)

lemma less_dyadic_iff: "r < dyadic n K \<longleftrightarrow> r * 2 ^ K < of_int n"
  by (simp add: dyadic_def pos_less_divide_eq)

lemma dyadic_less_iff: "dyadic n K < r \<longleftrightarrow> of_int n < r * 2 ^ K"
  by (simp add: dyadic_def pos_divide_less_eq)

lemma dyadic_eq_iff: "dyadic a K = dyadic b K \<longleftrightarrow> a = b"
  by (simp add: dyadic_def)

lemma round_binary64_nonneg: "0 \<le> x \<Longrightarrow> 0 \<le> round_binary64 x"
  by (auto simp: round_binary64_def round_pos_def Let_def round_half_even_def
      zero_le_mult_iff zero_le_divide_iff)

lemmas grid_eval = dadd_dyadic round_binary64_dyadic_eval round_grid_def bitlen_pos bitlen_0
  min_dyadic le_dyadic_iff dyadic_le_iff less_dyadic_iff dyadic_less_iff dyadic_eq_iff

end
