(* ===== verification/PacketParser.thy ===== *)
theory PacketParser
  imports Binary64
begin

unbundle bit_operations_syntax

text \<open>
  The scoring engine of \<open>src/external_workers/analyzer/packet_parser.cpp\<close>:
  the \<open>PacketFeatures\<close> and \<open>AnomalyResult\<close> structs of \<open>packet_parser.h\<close>, the
  suspicious-port table, the six additive rules of \<open>PacketParser::score\<close> with their
  \<open>double\<close> accumulation rounded as binary64, the clamp, the description text and
  \<open>PacketParser::severity_label\<close>. The \<open>double\<close> fields that come from outside
  (entropy, packet rate) are reals; the score is a binary64 value (a rational).
\<close>

subsection \<open>Data\<close>

record PacketFeatures =
  source_ip :: string
  destination_ip :: string
  protocol :: string
  src_port :: u16
  dst_port :: u16
  payload_len :: u32
  ttl :: u8
  tcp_flags :: u8
  payload_entropy :: real
  pkt_rate :: real

text \<open>The value of \<open>PacketFeatures f{}\<close>: the member initialisers of the header.\<close>

definition features_default :: PacketFeatures where
  "features_default =
     \<lparr>source_ip = [], destination_ip = [], protocol = [], src_port = 0, dst_port = 0,
      payload_len = 0, ttl = 64, tcp_flags = 0, payload_entropy = 0, pkt_rate = 0\<rparr>"

text \<open>
  \<open>AnomalyResult\<close>; its fields are prefixed \<open>ar_\<close> since a record field name is a
  constant and \<open>source_ip\<close> is taken by \<open>PacketFeatures\<close>.
\<close>

record AnomalyResult =
  ar_source_ip :: string
  ar_destination_ip :: string
  ar_protocol :: string
  ar_score :: rat
  ar_severity :: string
  ar_description :: string

definition SUSPICIOUS_PORTS :: "u16 list" where
  "SUSPICIOUS_PORTS = [23, 4444, 6667, 6666, 1337, 31337, 9001]"

definition SYN_FLAG :: u8 where
  "SYN_FLAG = 0x02"

definition ACK_FLAG :: u8 where
  "ACK_FLAG = 0x10"

subsection \<open>Printing the reasons\<close>

text \<open>
  \<open>static_cast<int>\<close> of a \<open>double\<close> truncates towards zero. (Beyond the range of
  \<open>int\<close> the cast is undefined behaviour in C++; the model keeps the mathematical
  truncation there.)
\<close>

definition trunc_int :: "real \<Rightarrow> int" where
  "trunc_int x = (if 0 \<le> x then \<lfloor>x\<rfloor> else \<lceil>x\<rceil>)"

definition pad6 :: "string \<Rightarrow> string" where
  "pad6 s = replicate (6 - length s) (CHR ''0'') @ s"

text \<open>
  \<open>std::to_string(double)\<close> prints like \<open>printf("%f")\<close>: the exact binary value
  rounded to six decimals, ties to even.
\<close>

definition to_string_double :: "rat \<Rightarrow> string" where
  "to_string_double v =
     (let n = round_half_even (\<bar>v\<bar> * 1000000)
      in (if v < 0 then ''-'' else []) @ nat_to_string (nat (n div 1000000)) @ ''.''
         @ pad6 (nat_to_string (nat (n mod 1000000))))"

text \<open>The entropy as printed: \<open>static_cast<int>(e * 100) / 100.0\<close>.\<close>

definition entropy_text :: "real \<Rightarrow> string" where
  "entropy_text e = to_string_double (round_binary64 (of_int (trunc_int (e * 100)) / 100))"

subsection \<open>The rules\<close>

text \<open>
  One rule of \<open>score\<close>: when its condition holds, add the weight (a \<open>double\<close>
  literal) to the running score with a binary64 addition and append the reason.
\<close>

definition rule_step :: "bool \<Rightarrow> rat \<Rightarrow> string \<Rightarrow> rat \<times> string list \<Rightarrow> rat \<times> string list" where
  "rule_step c w r acc = (if c then (dadd (fst acc) (dlit w), snd acc @ [r]) else acc)"

definition port_rule :: "PacketFeatures \<Rightarrow> bool" where
  "port_rule f \<longleftrightarrow> dst_port f \<in> set SUSPICIOUS_PORTS"

definition entropy_rule :: "PacketFeatures \<Rightarrow> bool" where
  "entropy_rule f \<longleftrightarrow> 7.5 < payload_entropy f"

definition ttl_rule :: "PacketFeatures \<Rightarrow> bool" where
  "ttl_rule f \<longleftrightarrow> ttl f < 10 \<or> ttl f = 255"

definition syn_rule :: "PacketFeatures \<Rightarrow> bool" where
  "syn_rule f \<longleftrightarrow>
     tcp_flags f AND SYN_FLAG \<noteq> 0 \<and> tcp_flags f AND ACK_FLAG = 0 \<and> payload_len f < 8"

definition rate_rule :: "PacketFeatures \<Rightarrow> bool" where
  "rate_rule f \<longleftrightarrow> 10000 < pkt_rate f"

definition oversize_rule :: "PacketFeatures \<Rightarrow> bool" where
  "oversize_rule f \<longleftrightarrow> 65000 < payload_len f"

text \<open>The six rules in source order: accumulated score and reasons.\<close>

definition score_acc :: "PacketFeatures \<Rightarrow> rat \<times> string list" where
  "score_acc f =
     rule_step (oversize_rule f) (10/100) (''oversized payload='' @ nat_to_string (unat (payload_len f)))
     (rule_step (rate_rule f) (20/100) (''excessive pkt_rate='' @ int_to_string (trunc_int (pkt_rate f)))
     (rule_step (syn_rule f) (25/100) ''SYN-only pkt (possible SYN flood)''
     (rule_step (ttl_rule f) (15/100) (''abnormal TTL='' @ nat_to_string (unat (ttl f)))
     (rule_step (entropy_rule f) (20/100) (''high payload entropy='' @ entropy_text (payload_entropy f))
     (rule_step (port_rule f) (30/100) (''suspicious dst_port='' @ nat_to_string (unat (dst_port f)))
       (0, []))))))"

text \<open>The loop that writes the reasons, \<open>"; "\<close> before every reason but the first.\<close>

fun join_reasons :: "nat \<Rightarrow> string list \<Rightarrow> string" where
  "join_reasons i [] = []"
| "join_reasons i (r # rs) = (if i \<noteq> 0 then ''; '' else []) @ r @ join_reasons (Suc i) rs"

definition describe :: "string list \<Rightarrow> string" where
  "describe reasons =
     (if reasons = [] then ''No anomalies detected.''
      else ''Detected: '' @ join_reasons 0 reasons @ ''.'')"

definition severity_label :: "rat \<Rightarrow> string" where
  "severity_label s =
     (if 75/100 \<le> s then ''critical''
      else if 50/100 \<le> s then ''high''
      else if 25/100 \<le> s then ''medium''
      else ''low'')"

definition score :: "PacketFeatures \<Rightarrow> AnomalyResult" where
  "score f =
     (let (s, reasons) = score_acc f;
          s' = min s (dlit 1)
      in \<lparr>ar_source_ip = source_ip f, ar_destination_ip = destination_ip f,
          ar_protocol = protocol f, ar_score = s', ar_severity = severity_label s',
          ar_description = describe reasons\<rparr>)"

subsection \<open>The specification of the rule table\<close>

text \<open>
  What the rule table of the specification promises: the triggered contributions
  added exactly and clamped to 1, and the severity read off that sum.
\<close>

definition spec_score :: "PacketFeatures \<Rightarrow> rat" where
  "spec_score f =
     min 1 ((if port_rule f then 30/100 else 0) + (if entropy_rule f then 20/100 else 0)
          + (if ttl_rule f then 15/100 else 0) + (if syn_rule f then 25/100 else 0)
          + (if rate_rule f then 20/100 else 0) + (if oversize_rule f then 10/100 else 0))"

definition severity_rank :: "string \<Rightarrow> nat" where
  "severity_rank l =
     (if l = ''critical'' then 3 else if l = ''high'' then 2 else if l = ''medium'' then 1 else 0)"

subsection \<open>The score as a function of the six rule outcomes\<close>

definition rule_flags :: "PacketFeatures \<Rightarrow> bool list" where
  "rule_flags f = [port_rule f, entropy_rule f, ttl_rule f, syn_rule f, rate_rule f, oversize_rule f]"

definition rule_weights :: "rat list" where
  "rule_weights = [30/100, 20/100, 15/100, 25/100, 20/100, 10/100]"

fun acc_flags :: "rat \<Rightarrow> bool list \<Rightarrow> rat list \<Rightarrow> rat" where
  "acc_flags s (b # bs) (w # ws) = acc_flags (if b then dadd s (dlit w) else s) bs ws"
| "acc_flags s _ _ = s"

definition spec_sum :: "bool list \<Rightarrow> rat" where
  "spec_sum bs = sum_list (map snd (filter fst (zip bs rule_weights)))"

subsection \<open>Concrete packets\<close>

definition syn_scan_example :: PacketFeatures where
  "syn_scan_example = features_default\<lparr>dst_port := 4444, ttl := 5, tcp_flags := 0x02, payload_len := 0, pkt_rate := 0\<rparr>"

text \<open>A packet whose four triggered rules add up to exactly 0.75 in the rule table.\<close>

definition boundary_example :: PacketFeatures where
  "boundary_example =
     features_default\<lparr>dst_port := 4444, ttl := 5, pkt_rate := 20000, payload_len := 70000\<rparr>"

subsection \<open>Evaluating the score\<close>

lemma score_acc_fst: "fst (score_acc f) = acc_flags 0 (rule_flags f) rule_weights"
  by (simp add: score_acc_def rule_step_def rule_flags_def rule_weights_def)

lemma ar_score_flags: "ar_score (score f) = min (acc_flags 0 (rule_flags f) rule_weights) (dlit 1)"
  using score_acc_fst [of f] by (cases "score_acc f") (simp add: score_def Let_def)

lemma spec_score_flags: "spec_score f = min 1 (spec_sum (rule_flags f))"
  by (simp add: spec_score_def spec_sum_def rule_flags_def rule_weights_def)

text \<open>The \<open>double\<close> literals of the rules, on the grid of \<open>2^-56\<close>.\<close>

lemma dlit_weights:
  "dlit (3/10) = dyadic 21617278211378380 56"
  "dlit (1/5) = dyadic 14411518807585588 56"
  "dlit (3/20) = dyadic 10808639105689190 56"
  "dlit (1/4) = dyadic 18014398509481984 56"
  "dlit (1/10) = dyadic 7205759403792794 56"
  "dlit 1 = dyadic 72057594037927936 56"
  by code_simp+

lemma acc_flags_zero: "acc_flags 0 bs ws = acc_flags (dyadic 0 56) bs ws"
  by (simp add: dyadic_0)

lemmas flags_eval = rule_weights_def spec_sum_def dlit_weights grid_eval round_half_even_shift_def
  severity_label_def

lemma flags_severity:
  "severity_label (min (acc_flags 0 [b1, b2, b3, b4, b5, b6] rule_weights) (dlit 1))
     = severity_label (min 1 (spec_sum [b1, b2, b3, b4, b5, b6]))
   \<longleftrightarrow> \<not> (b1 \<and> \<not> b2 \<and> b3 \<and> \<not> b4 \<and> b5 \<and> b6)"
  unfolding acc_flags_zero by (cases b1; cases b2; cases b3; cases b4; cases b5; cases b6; simp add: flags_eval)

lemma flags_positive:
  "0 < min (acc_flags 0 [b1, b2, b3, b4, b5, b6] rule_weights) (dlit 1)
   \<longleftrightarrow> b1 \<or> b2 \<or> b3 \<or> b4 \<or> b5 \<or> b6"
  unfolding acc_flags_zero by (cases b1; cases b2; cases b3; cases b4; cases b5; cases b6; simp add: flags_eval)

lemma rule_flags_six: "\<exists>b1 b2 b3 b4 b5 b6. rule_flags f = [b1, b2, b3, b4, b5, b6]"
  by (simp add: rule_flags_def)

lemma acc_flags_nonneg: "0 \<le> s \<Longrightarrow> \<forall>w \<in> set ws. 0 \<le> w \<Longrightarrow> 0 \<le> acc_flags s bs ws"
  by (induction s bs ws rule: acc_flags.induct)
     (auto simp: dadd_def dlit_def round_binary64_nonneg)

lemma snd_rule_step: "snd (rule_step c w r acc) = (if c then snd acc @ [r] else snd acc)"
  by (simp add: rule_step_def)

lemma ar_score_nonneg: "0 \<le> ar_score (score f)"
proof -
  have "0 \<le> acc_flags 0 (rule_flags f) rule_weights"
    by (rule acc_flags_nonneg) (simp_all add: rule_weights_def)
  moreover have "dlit 1 = 1" by (simp add: dlit_weights dyadic_def)
  ultimately show ?thesis by (simp add: ar_score_flags)
qed

lemma ar_score_le_1: "ar_score (score f) \<le> 1"
proof -
  have "dlit 1 = 1" by (simp add: dlit_weights dyadic_def)
  then show ?thesis by (simp add: ar_score_flags)
qed

lemma ar_severity_score: "ar_severity (score f) = severity_label (ar_score (score f))"
  by (cases "score_acc f") (simp add: score_def Let_def)

lemma ar_description_score: "ar_description (score f) = describe (snd (score_acc f))"
  by (cases "score_acc f") (simp add: score_def Let_def)

lemmas rules_eval = port_rule_def entropy_rule_def ttl_rule_def syn_rule_def rate_rule_def
  oversize_rule_def SUSPICIOUS_PORTS_def SYN_FLAG_def ACK_FLAG_def features_default_def

subsection \<open>Properties of the score\<close>

text \<open>
  C10: Refinement against the rule table, with its one exception. The severity the code
  attaches to a packet equals the severity of the rule table's exact sum of triggered
  contributions, for every packet except those that trigger exactly the port, TTL, rate
  and size rules: there the binary64 sum \<open>0.30 + 0.15 + 0.20 + 0.10\<close> is
  \<open>0.7499999999999999\<close>, labelled high, where the table's \<open>0.75\<close> is critical.
\<close>

theorem score_severity_spec:
  "ar_severity (score f) = severity_label (spec_score f) \<longleftrightarrow>
   \<not> (port_rule f \<and> \<not> entropy_rule f \<and> ttl_rule f \<and> \<not> syn_rule f \<and> rate_rule f \<and> oversize_rule f)"
proof -
  have sev: "ar_severity (score f) = severity_label (ar_score (score f))"
    by (simp add: score_def Let_def split: prod.splits)
  obtain b1 b2 b3 b4 b5 b6 where bs: "rule_flags f = [b1, b2, b3, b4, b5, b6]"
    using rule_flags_six by blast
  then have "port_rule f = b1" "entropy_rule f = b2" "ttl_rule f = b3" "syn_rule f = b4"
    "rate_rule f = b5" "oversize_rule f = b6" by (simp_all add: rule_flags_def)
  then show ?thesis
    using flags_severity [of b1 b2 b3 b4 b5 b6]
    by (simp only: sev ar_score_flags spec_score_flags bs)
qed

text \<open>C16: The score of every packet lies in \<open>[0, 1]\<close>.\<close>

theorem score_bounds: "0 \<le> ar_score (score f) \<and> ar_score (score f) \<le> 1"
  by (simp add: ar_score_nonneg ar_score_le_1)

text \<open>
  C17: The score is positive exactly when at least one of the six rules fires, so a packet
  is reported to the sink (which happens when the score is positive) exactly when some
  rule fires.
\<close>

theorem score_positive_iff_rule:
  "0 < ar_score (score f) \<longleftrightarrow>
   port_rule f \<or> entropy_rule f \<or> ttl_rule f \<or> syn_rule f \<or> rate_rule f \<or> oversize_rule f"
proof -
  obtain b1 b2 b3 b4 b5 b6 where bs: "rule_flags f = [b1, b2, b3, b4, b5, b6]"
    using rule_flags_six by blast
  then have "port_rule f = b1" "entropy_rule f = b2" "ttl_rule f = b3" "syn_rule f = b4"
    "rate_rule f = b5" "oversize_rule f = b6" by (simp_all add: rule_flags_def)
  then show ?thesis
    using flags_positive [of b1 b2 b3 b4 b5 b6]
    by (simp only: ar_score_flags bs)
qed

text \<open>The severity label is a monotone step function of the score.\<close>

theorem severity_label_monotone:
  "s \<le> t \<Longrightarrow> severity_rank (severity_label s) \<le> severity_rank (severity_label t)"
  by (simp add: severity_label_def severity_rank_def)

text \<open>
  The scenario of the specification: destination port 4444, TTL 5, SYN flag alone,
  empty payload score the \<open>double\<close> 0.70 (port, TTL and SYN rules), severity high, and
  the description lists the three reasons in rule order.
\<close>

theorem score_syn_scan:
  "ar_score (score syn_scan_example) = dlit (70/100) \<and>
   ar_severity (score syn_scan_example) = ''high'' \<and>
   ar_description (score syn_scan_example) =
     ''Detected: suspicious dst_port=4444; abnormal TTL=5; SYN-only pkt (possible SYN flood).''"
proof -
  have fl: "rule_flags syn_scan_example = [True, False, True, True, False, False]"
    by (simp add: rule_flags_def syn_scan_example_def rules_eval)
  have sc: "ar_score (score syn_scan_example) = dlit (70/100)"
    unfolding ar_score_flags fl acc_flags_zero by (simp add: flags_eval) code_simp
  moreover have "ar_severity (score syn_scan_example) = ''high''"
    unfolding ar_severity_score sc by code_simp
  moreover have "ar_description (score syn_scan_example) =
     ''Detected: suspicious dst_port=4444; abnormal TTL=5; SYN-only pkt (possible SYN flood).''"
    unfolding ar_description_score
    by (simp add: score_acc_def snd_rule_step syn_scan_example_def rules_eval describe_def
        nat_to_string.simps)
  ultimately show ?thesis by blast
qed

text \<open>
  A concrete packet on the critical boundary: port 4444, TTL 5, rate 20000 and a
  70000-byte payload add up to exactly 0.75 in the rule table (critical) but the code's
  score is below 0.75 and its severity is high.
\<close>

theorem score_boundary_divergence:
  "ar_score (score boundary_example) < 3/4 \<and> spec_score boundary_example = 3/4 \<and>
   ar_severity (score boundary_example) = ''high'' \<and>
   severity_label (spec_score boundary_example) = ''critical''"
proof -
  have fl: "rule_flags boundary_example = [True, False, True, False, True, True]"
    by (simp add: rule_flags_def boundary_example_def rules_eval)
  have sc: "ar_score (score boundary_example) = dyadic 54043195528445944 56"
    unfolding ar_score_flags fl acc_flags_zero by (simp add: flags_eval)
  have sp: "spec_score boundary_example = 3/4"
    unfolding spec_score_flags fl by (simp add: spec_sum_def rule_weights_def)
  have "ar_score (score boundary_example) < 3/4"
    unfolding sc dyadic_less_iff by simp
  then show ?thesis
    by (simp add: sc sp ar_severity_score severity_label_def grid_eval)
qed

text \<open>
  A packet that triggers no rule scores 0, has severity low and the fixed
  no-anomaly description.
\<close>

theorem score_benign_default:
  "score features_default =
     \<lparr>ar_source_ip = [], ar_destination_ip = [], ar_protocol = [], ar_score = 0,
      ar_severity = ''low'', ar_description = ''No anomalies detected.''\<rparr>"
  by (simp add: score_def score_acc_def rule_step_def rules_eval describe_def severity_label_def
      dlit_weights grid_eval dyadic_0)

text \<open>The hypothesis of the monotonicity claim holds for the scores 0.25 and 0.75.\<close>

theorem severity_label_monotone_witness:
  "(1/4::rat) \<le> 3/4 \<and> severity_rank (severity_label (1/4)) \<le> severity_rank (severity_label (3/4))"
  using severity_label_monotone [of "1/4" "3/4"] by simp

end
