(* ===== verification/Entropy.thy ===== *)
theory Entropy
  imports Prelude
begin

text \<open>
  \<open>PacketParser::compute_entropy\<close> of \<open>packet_parser.cpp\<close>: the hex string is read
  two characters at a time, each pair converted by \<open>std::stoul(pair, nullptr, 16)\<close>
  (a pair it cannot convert throws \<open>std::invalid_argument\<close>, which the loop catches and
  skips), the byte values are counted in a 256-entry table, and the Shannon entropy of
  the counts is returned. \<open>std::stoul\<close> follows \<open>strtoul\<close>: leading white space, an
  optional sign, then as many hex digits as there are; a minus sign negates modulo
  \<open>2^64\<close>. The counters are \<open>uint32_t\<close>; they are naturals here because a payload
  read from the stream store is at most 512 MiB, far below \<open>2^32\<close> pairs. The
  division and the logarithm are exact real operations (the libm rounding of
  \<open>std::log2\<close> is not modelled).
\<close>

subsection \<open>One pair of characters\<close>

definition is_space :: "char \<Rightarrow> bool" where
  "is_space c \<longleftrightarrow> of_char c = (32::nat) \<or> (9 \<le> (of_char c :: nat) \<and> (of_char c :: nat) \<le> 13)"

definition hex_val :: "char \<Rightarrow> nat option" where
  "hex_val c =
     (let n = (of_char c :: nat)
      in if 48 \<le> n \<and> n \<le> 57 then Some (n - 48)
         else if 97 \<le> n \<and> n \<le> 102 then Some (n - 87)
         else if 65 \<le> n \<and> n \<le> 70 then Some (n - 55)
         else None)"

text \<open>
  \<open>std::stoul\<close> on a two-character string, base 16: \<open>None\<close> when no digit is
  found (it throws), otherwise the \<open>unsigned long\<close> value.
\<close>

definition stoul_hex2 :: "char \<Rightarrow> char \<Rightarrow> nat option" where
  "stoul_hex2 c1 c2 =
     (if is_space c1 then hex_val c2
      else if c1 = CHR ''+'' then hex_val c2
      else if c1 = CHR ''-'' then map_option (\<lambda>v. (2 ^ 64 - v) mod 2 ^ 64) (hex_val c2)
      else (case hex_val c1 of
              None \<Rightarrow> None
            | Some v1 \<Rightarrow> (case hex_val c2 of Some v2 \<Rightarrow> Some (16 * v1 + v2) | None \<Rightarrow> Some v1)))"

text \<open>\<open>static_cast<uint8_t>\<close> of the converted value.\<close>

definition decode_pair :: "char \<Rightarrow> char \<Rightarrow> u8 option" where
  "decode_pair c1 c2 = map_option word_of_nat (stoul_hex2 c1 c2)"

subsection \<open>The loops\<close>

text \<open>
  The counting loop \<open>for (i = 0; i + 1 < hex.size(); i += 2)\<close>: the frequency table
  and \<open>byte_count\<close> as explicit state.
\<close>

fun count_loop :: "string \<Rightarrow> nat list \<Rightarrow> nat \<Rightarrow> nat list \<times> nat" where
  "count_loop (c1 # c2 # rest) freq n =
     (case decode_pair c1 c2 of
        None \<Rightarrow> count_loop rest freq n
      | Some b \<Rightarrow> count_loop rest (freq[unat b := freq ! unat b + 1]) (Suc n))"
| "count_loop _ freq n = (freq, n)"

text \<open>The entropy loop over the table: \<open>entropy -= p * log2(p)\<close> for every non-zero count.\<close>

definition entropy_step :: "nat \<Rightarrow> real \<Rightarrow> nat \<Rightarrow> real" where
  "entropy_step n e c =
     (if c = 0 then e else e - (real c / real n) * log 2 (real c / real n))"

definition entropy_of :: "nat list \<Rightarrow> nat \<Rightarrow> real" where
  "entropy_of freq n = foldl (entropy_step n) 0 freq"

definition compute_entropy :: "string \<Rightarrow> real" where
  "compute_entropy hex =
     (if length hex < 2 then 0
      else (let (freq, n) = count_loop hex (replicate 256 0) 0
            in if n = 0 then 0 else entropy_of freq n))"

subsection \<open>Reference: the decoded bytes\<close>

text \<open>The bytes the loop counts, in order: the pairs that convert.\<close>

fun decode_pairs :: "string \<Rightarrow> u8 list" where
  "decode_pairs (c1 # c2 # rest) =
     (case decode_pair c1 c2 of None \<Rightarrow> decode_pairs rest | Some b \<Rightarrow> b # decode_pairs rest)"
| "decode_pairs _ = []"

text \<open>Lower-case hex encoding of bytes, the format the payload is meant to have.\<close>

definition hex_digit :: "nat \<Rightarrow> char" where
  "hex_digit d = char_of (if d < 10 then 48 + d else 87 + d)"

definition hex_encode :: "u8 list \<Rightarrow> string" where
  "hex_encode bs = concat (map (\<lambda>b. [hex_digit (unat b div 16), hex_digit (unat b mod 16)]) bs)"

definition all_bytes :: "u8 list" where
  "all_bytes = map of_nat [0..<256]"

subsection \<open>The counting loop and the decoding\<close>

lemma unat_u8_less: "unat (b :: u8) < 256"
  using unsigned_less [of b] by simp

lemma map_nth_len: "length xs = n \<Longrightarrow> map (\<lambda>i. xs ! i) [0..<n] = xs"
  using map_nth [of xs] by simp

lemma count_loop_eq:
  "length freq = 256 \<Longrightarrow>
   count_loop s freq n =
     (map (\<lambda>i. freq ! i + count_list (map unat (decode_pairs s)) i) [0..<256],
      n + length (decode_pairs s))"
proof (induction s freq n rule: count_loop.induct)
  case (1 c1 c2 rest freq n)
  show ?case
  proof (cases "decode_pair c1 c2")
    case None
    with "1.IH"(1) "1.prems" show ?thesis by simp
  next
    case (Some b)
    have len: "length (freq[unat b := freq ! unat b + 1]) = 256" using "1.prems" by simp
    have "\<And>i. i < 256 \<Longrightarrow> freq[unat b := freq ! unat b + 1] ! i + count_list (map unat (decode_pairs rest)) i
            = freq ! i + count_list (map unat (b # decode_pairs rest)) i"
      using "1.prems" unat_u8_less [of b] by (auto simp: nth_list_update)
    then show ?thesis
      using "1.IH"(2) [OF Some len] Some by simp
  qed
qed (simp_all add: map_nth_len)

lemma of_char_hex_digit: "d < 16 \<Longrightarrow> (of_char (hex_digit d) :: nat) = (if d < 10 then 48 + d else 87 + d)"
  by (simp add: hex_digit_def)

lemma hex_val_digit: "d < 16 \<Longrightarrow> hex_val (hex_digit d) = Some d"
  by (simp add: hex_val_def of_char_hex_digit Let_def)

lemma hex_digit_not_sign:
  assumes "d < 16"
  shows "\<not> is_space (hex_digit d)" "hex_digit d \<noteq> CHR ''+''" "hex_digit d \<noteq> CHR ''-''"
proof -
  have o: "48 \<le> (of_char (hex_digit d) :: nat)" using assms by (simp add: of_char_hex_digit)
  then show "\<not> is_space (hex_digit d)" by (auto simp: is_space_def)
  show "hex_digit d \<noteq> CHR ''+''" "hex_digit d \<noteq> CHR ''-''"
    using o by auto
qed

lemma decode_pair_hex: "decode_pair (hex_digit (unat b div 16)) (hex_digit (unat b mod 16)) = Some b"
proof -
  have lt: "unat b div 16 < 16" "unat b mod 16 < 16"
    using unat_u8_less [of b] by simp_all
  have "stoul_hex2 (hex_digit (unat b div 16)) (hex_digit (unat b mod 16)) = Some (unat b)"
    using lt by (simp add: stoul_hex2_def hex_digit_not_sign hex_val_digit)
  then show ?thesis by (simp add: decode_pair_def)
qed

text \<open>
  C26: Round trip: decoding the lower-case hex encoding of any byte sequence, pair by pair with \<open>std::stoul\<close>, gives the bytes back.
\<close>

theorem decode_hex_encode: "decode_pairs (hex_encode bs) = bs"
  by (induction bs) (simp_all add: hex_encode_def decode_pair_hex)


lemma entropy_step_mono: "c \<le> n \<Longrightarrow> e \<le> entropy_step n e c"
proof (cases "c = 0")
  case False
  assume "c \<le> n"
  with False have p: "0 < real c / real n" "real c / real n \<le> 1" by auto
  then have "log 2 (real c / real n) \<le> 0" by simp
  with p have "(real c / real n) * log 2 (real c / real n) \<le> 0"
    by (intro mult_nonneg_nonpos) simp_all
  then show ?thesis using False by (simp add: entropy_step_def)
qed (simp add: entropy_step_def)

lemma foldl_entropy_mono: "\<forall>c \<in> set cs. c \<le> n \<Longrightarrow> e \<le> foldl (entropy_step n) e cs"
proof (induction cs arbitrary: e)
  case (Cons c cs)
  then have "e \<le> entropy_step n e c" by (simp add: entropy_step_mono)
  also have "\<dots> \<le> foldl (entropy_step n) (entropy_step n e c) cs" using Cons by simp
  finally show ?case by simp
qed simp

lemma foldl_entropy_const: "\<forall>c \<in> set cs. c = 0 \<or> c = n \<Longrightarrow> foldl (entropy_step n) e cs = e"
  by (induction cs arbitrary: e) (auto simp: entropy_step_def)

lemma foldl_entropy_ones:
  "0 < n \<Longrightarrow> foldl (entropy_step n) e (replicate k 1) = e + real k * (log 2 (real n) / real n)"
proof (induction k arbitrary: e)
  case (Suc k)
  have "entropy_step n e 1 = e + log 2 (real n) / real n"
    using Suc.prems by (simp add: entropy_step_def log_divide)
  with Suc show ?case by (simp add: field_simps)
qed simp

lemma count_list_distinct: "distinct xs \<Longrightarrow> count_list xs x = (if x \<in> set xs then 1 else 0)"
  by (induction xs) auto

lemma map_replicate_zero_add:
  "map (\<lambda>i. replicate n 0 ! i + g i) [0..<n] = map (g :: nat \<Rightarrow> nat) [0..<n]"
  by (rule map_cong) auto

lemma compute_entropy_counts:
  "compute_entropy hex =
     (if decode_pairs hex = [] then 0
      else entropy_of (map (count_list (map unat (decode_pairs hex))) [0..<256])
             (length (decode_pairs hex)))"
proof (cases "length hex < 2")
  case True
  then have "decode_pairs hex = []"
    by (cases hex rule: decode_pairs.cases) auto
  with True show ?thesis by (simp add: compute_entropy_def)
next
  case False
  then show ?thesis
    by (simp add: compute_entropy_def count_loop_eq map_replicate_zero_add)
qed

text \<open>
  C29: The entropy \<open>compute_entropy\<close> returns is never negative.
\<close>

theorem compute_entropy_nonneg: "0 \<le> compute_entropy hex"
proof -
  have "\<forall>c \<in> set (map (count_list (map unat (decode_pairs hex))) [0..<256]). c \<le> length (decode_pairs hex)"
    using count_le_length [of "map unat (decode_pairs hex)"] by auto
  then show ?thesis
    by (simp add: compute_entropy_counts entropy_of_def foldl_entropy_mono)
qed

text \<open>
  C28: A hex payload holding each of the 256 byte values exactly once has entropy exactly 8 bits per byte.
\<close>

theorem compute_entropy_uniform:
  assumes "distinct bs" "length bs = 256"
  shows "compute_entropy (hex_encode bs) = 8"
proof -
  have d: "distinct (map unat bs)"
    using assms(1) by (simp add: distinct_map inj_on_def word_unat_eq_iff)
  have sub: "set (map unat bs) \<subseteq> {0..<256}" using unat_u8_less by auto
  have "card (set (map unat bs)) = card {0..<256::nat}"
    using distinct_card [OF d] assms(2) by simp
  then have "set (map unat bs) = {0..<256}"
    using sub by (simp add: card_subset_eq)
  then have set_eq: "unat ` set bs = {0..<256}" by simp
  have m: "map (count_list (map unat bs)) [0..<256] = replicate 256 1"
    by (rule nth_equalityI) (simp_all add: count_list_distinct [OF d] set_eq)
  have "log 2 ((2::real) ^ 8) = 8" by (subst log_nat_power) simp_all
  then have e: "entropy_of (replicate 256 1) 256 = 8"
    unfolding entropy_of_def using foldl_entropy_ones [of 256 0 256] by simp
  have "bs \<noteq> []" using assms(2) by auto
  then show ?thesis
    unfolding compute_entropy_counts decode_hex_encode using m e assms(2) by simp
qed

text \<open>
  A hex payload whose decodable bytes are all the same value (in particular a single byte, or none) has entropy 0.
\<close>

theorem compute_entropy_single_symbol:
  assumes "\<forall>b \<in> set bs. b = c"
  shows "compute_entropy (hex_encode bs) = 0"
proof -
  have "\<forall>x \<in> set (map (count_list (map unat bs)) [0..<256]). x = 0 \<or> x = length bs"
  proof
    fix x assume "x \<in> set (map (count_list (map unat bs)) [0..<256])"
    then obtain i where x: "x = count_list (map unat bs) i" by auto
    show "x = 0 \<or> x = length bs"
    proof (cases "i = unat c")
      case True
      have "map unat bs = replicate (length bs) (unat c)"
        using assms by (simp add: map_replicate_const [symmetric] cong: map_cong)
      with True x show ?thesis by (simp add: count_list_eq_length_filter)
    next
      case False
      with assms x have "i \<notin> set (map unat bs)" by auto
      with x show ?thesis by simp
    qed
  qed
  then show ?thesis
    by (simp add: compute_entropy_counts decode_hex_encode entropy_of_def foldl_entropy_const)
qed


text \<open>
  C27: The counting loop started as the code starts it (a zeroed table, count 0) computes,
  for every byte value, how often it occurs among the decoded pairs, and the number of
  decoded pairs.
\<close>

theorem count_loop_reference:
  "count_loop s (replicate 256 0) 0 =
     (map (count_list (map unat (decode_pairs s))) [0..<256], length (decode_pairs s))"
  by (simp add: count_loop_eq map_replicate_zero_add)

lemma hex_val_not_sign: "hex_val c \<noteq> None \<Longrightarrow> \<not> is_space c \<and> c \<noteq> CHR ''+'' \<and> c \<noteq> CHR ''-''"
  by (auto simp: hex_val_def is_space_def Let_def split: if_splits)

lemma hex_val_less: "hex_val c = Some v \<Longrightarrow> v < 16"
  by (auto simp: hex_val_def Let_def split: if_splits)

lemma neg_wrap_u8: "v < 16 \<Longrightarrow> (word_of_nat ((2 ^ 64 - v) mod 2 ^ 64) :: u8) = - word_of_nat v"
proof (cases "v = 0")
  case False
  assume "v < 16"
  then have "(2 ^ 64 - v) mod 2 ^ 64 = 2 ^ 64 - v" using False by simp
  moreover have "(word_of_nat (2 ^ 64 - v) :: u8) = word_of_nat (2 ^ 64) - word_of_nat v"
    using \<open>v < 16\<close> by (simp add: of_nat_diff)
  moreover have "(word_of_nat (2 ^ 64) :: u8) = 0" by simp
  ultimately show ?thesis by simp
qed simp

text \<open>The pairs of \<open>"1g-1 fzz"\<close>: \<open>"1g"\<close> gives 1, \<open>"-1"\<close> gives 255, \<open>" f"\<close> gives 15, \<open>"zz"\<close> is skipped.\<close>

lemma stoul_pairs_example: "decode_pairs ''1g-1 fzz'' = [1, 255, 15]"
  by (simp add: decode_pair_def stoul_hex2_def is_space_def hex_val_def Let_def)

text \<open>
  C30: \<open>std::stoul\<close> does not skip every malformed pair, as the specification says
  it does: a pair is converted exactly when its first character is a hex digit, or a
  blank or sign followed by a hex digit. A hex digit followed by a non-digit converts
  to that digit alone, and \<open>'-'\<close> followed by a digit is negated modulo \<open>2^64\<close>
  and wraps in the \<open>uint8_t\<close> cast.
\<close>

theorem stoul_partial_pairs:
  "(decode_pair c1 c2 \<noteq> None \<longleftrightarrow>
      hex_val c1 \<noteq> None \<or> ((is_space c1 \<or> c1 = CHR ''+'' \<or> c1 = CHR ''-'') \<and> hex_val c2 \<noteq> None)) \<and>
   (hex_val c1 = Some v \<longrightarrow> hex_val c2 = None \<longrightarrow> decode_pair c1 c2 = Some (word_of_nat v)) \<and>
   (hex_val c1 = Some v \<longrightarrow> decode_pair CHR ''-'' c1 = Some (- word_of_nat v))"
proof -
  have "CHR ''-'' \<noteq> CHR ''+''" "\<not> is_space CHR ''-''" by (simp_all add: is_space_def)
  then show ?thesis
    using hex_val_not_sign [of c1] hex_val_less [of c1 v] neg_wrap_u8 [of v]
    by (auto simp: decode_pair_def stoul_hex2_def split: option.splits)
qed

subsection \<open>Witnesses\<close>

lemma distinct_all_bytes: "distinct all_bytes"
proof -
  have "inj_on (of_nat :: nat \<Rightarrow> u8) {0..<256}"
    by (auto simp: inj_on_def word_of_nat_eq_iff take_bit_nat_eq_self)
  then show ?thesis by (simp add: all_bytes_def distinct_map)
qed

theorem compute_entropy_uniform_witness:
  "distinct all_bytes \<and> length all_bytes = 256 \<and> compute_entropy (hex_encode all_bytes) = 8"
proof -
  have "length all_bytes = 256" by (simp add: all_bytes_def)
  with distinct_all_bytes show ?thesis using compute_entropy_uniform by blast
qed

theorem compute_entropy_single_symbol_witness:
  "set [0x41, 0x41 :: u8] = {0x41} \<and> compute_entropy (hex_encode [0x41, 0x41]) = 0"
proof -
  have h: "\<forall>b \<in> set [0x41, 0x41 :: u8]. b = 0x41" by simp
  show ?thesis using compute_entropy_single_symbol [OF h] by simp
qed

theorem stoul_partial_pairs_witness:
  "hex_val CHR ''1'' = Some 1 \<and> hex_val CHR ''g'' = None \<and> hex_val CHR ''1'' = Some 1 \<and>
   decode_pair CHR ''1'' CHR ''g'' = Some 1 \<and> decode_pair CHR ''-'' CHR ''1'' = Some 255"
proof -
  have h: "hex_val CHR ''1'' = Some 1" "hex_val CHR ''g'' = None" by (simp_all add: hex_val_def)
  note st = stoul_partial_pairs [of "CHR ''1''" "CHR ''g''" 1]
  have "decode_pair CHR ''-'' CHR ''1'' = Some (- word_of_nat 1)" using st h(1) by blast
  moreover have "decode_pair CHR ''1'' CHR ''g'' = Some (word_of_nat 1)" using st h by blast
  moreover have "(- word_of_nat 1 :: u8) = 255" by simp
  ultimately show ?thesis using h by simp
qed

end
