(* ===== verification/ThreadPool.thy ===== *)
theory ThreadPool
  imports Prelude
begin

text \<open>
  The worker pool of \<open>src/external_workers/analyzer/thread_pool.h\<close>. Its state is
  the task queue \<open>tasks_\<close>, the flag \<open>stop_\<close> and, for each thread of
  \<open>workers_\<close>, where its \<open>worker_loop\<close> is: waiting on \<open>condition_\<close>, running a
  task, or returned. Every access to \<open>tasks_\<close> and \<open>stop_\<close> happens under
  \<open>queue_mutex_\<close>, so each critical section is one atomic step, and the threads'
  steps interleave arbitrarily: the pool is an inductive step relation. Three logs that
  the code does not keep record the run (\<open>submitted\<close>, \<open>started\<close>,
  \<open>finished\<close>) so that "every task runs exactly once" can be stated. Tasks are a type
  variable: the pool runs any closure, and the theorems hold for every task type.
\<close>

datatype 'task wstate = Idle | Running 'task | Exited

datatype pool_error = InvalidArgument | PoolStopped

record 'task pool =
  tasks :: "'task list"
  stop :: bool
  workers :: "'task wstate list"
  submitted :: "'task list"
  started :: "'task list"
  finished :: "'task list"

text \<open>The constructor: zero threads throw \<open>std::invalid_argument\<close>.\<close>

definition pool_create :: "nat \<Rightarrow> pool_error + 'task pool" where
  "pool_create n =
     (if n = 0 then Inl InvalidArgument
      else Inr \<lparr>tasks = [], stop = False, workers = replicate n Idle,
                submitted = [], started = [], finished = []\<rparr>)"

text \<open>\<open>enqueue\<close>: throws \<open>std::runtime_error\<close> once \<open>stop_\<close> is set.\<close>

definition enqueue :: "'task \<Rightarrow> 'task pool \<Rightarrow> pool_error + 'task pool" where
  "enqueue t p =
     (if stop p then Inl PoolStopped
      else Inr (p\<lparr>tasks := tasks p @ [t], submitted := submitted p @ [t]\<rparr>))"

definition thread_count :: "'task pool \<Rightarrow> nat" where
  "thread_count p = length (workers p)"

definition pending_tasks :: "'task pool \<Rightarrow> nat" where
  "pending_tasks p = length (tasks p)"

text \<open>
  One pass of \<open>worker_loop\<close> for thread \<open>i\<close> once its wait predicate
  \<open>stop_ || !tasks_.empty()\<close> holds: return if stopping with an empty queue,
  otherwise pop the front task. \<open>None\<close> while the predicate is false (the thread keeps
  waiting) or the thread is not waiting.
\<close>

definition worker_wake :: "nat \<Rightarrow> 'task pool \<Rightarrow> 'task pool option" where
  "worker_wake i p =
     (if i < length (workers p) \<and> workers p ! i = Idle \<and> (stop p \<or> tasks p \<noteq> []) then
        (if stop p \<and> tasks p = [] then Some (p\<lparr>workers := (workers p)[i := Exited]\<rparr>)
         else Some (p\<lparr>tasks := tl (tasks p), workers := (workers p)[i := Running (hd (tasks p))],
                      started := started p @ [hd (tasks p)]\<rparr>))
      else None)"

text \<open>\<open>task()\<close> returns: the thread goes back to waiting.\<close>

definition worker_done :: "nat \<Rightarrow> 'task pool \<Rightarrow> 'task pool option" where
  "worker_done i p =
     (if i < length (workers p) then
        (case workers p ! i of
           Running t \<Rightarrow> Some (p\<lparr>workers := (workers p)[i := Idle], finished := finished p @ [t]\<rparr>)
         | _ \<Rightarrow> None)
      else None)"

text \<open>The first block of the destructor: \<open>stop_ = true\<close>.\<close>

definition shutdown :: "'task pool \<Rightarrow> 'task pool" where
  "shutdown p = p\<lparr>stop := True\<rparr>"

text \<open>The destructor's joins return once every thread has returned from \<open>worker_loop\<close>.\<close>

definition joined :: "'task pool \<Rightarrow> bool" where
  "joined p \<longleftrightarrow> (\<forall>w \<in> set (workers p). w = Exited)"

inductive pool_step :: "'task pool \<Rightarrow> 'task pool \<Rightarrow> bool" where
  step_enqueue: "enqueue t p = Inr p' \<Longrightarrow> pool_step p p'"
| step_wake: "worker_wake i p = Some p' \<Longrightarrow> pool_step p p'"
| step_done: "worker_done i p = Some p' \<Longrightarrow> pool_step p p'"
| step_shutdown: "\<not> stop p \<Longrightarrow> pool_step p (shutdown p)"

inductive pool_reachable :: "'task pool \<Rightarrow> bool" where
  reach_create: "pool_create n = Inr p \<Longrightarrow> pool_reachable p"
| reach_step: "pool_reachable p \<Longrightarrow> pool_step p p' \<Longrightarrow> pool_reachable p'"

inductive_cases pool_stepE: "pool_step p p'"

subsection \<open>The invariant\<close>

fun running_tasks :: "'task wstate list \<Rightarrow> 'task list" where
  "running_tasks [] = []"
| "running_tasks (Running t # ws) = t # running_tasks ws"
| "running_tasks (_ # ws) = running_tasks ws"

text \<open>
  What every reachable state satisfies: tasks leave the queue in submission order;
  every started task is running or finished; and a returned thread implies that the
  pool is stopping with an empty queue.
\<close>

definition pool_inv :: "'task pool \<Rightarrow> bool" where
  "pool_inv p \<longleftrightarrow>
     started p @ tasks p = submitted p \<and>
     mset (started p) = mset (running_tasks (workers p)) + mset (finished p) \<and>
     (Exited \<in> set (workers p) \<longrightarrow> stop p \<and> tasks p = [])"

definition wtask :: "'task wstate \<Rightarrow> 'task multiset" where
  "wtask w = (case w of Running t \<Rightarrow> {#t#} | _ \<Rightarrow> {#})"

text \<open>
  The variant of the drain: three per queued task, two per running thread, one per
  waiting thread. Once \<open>stop_\<close> is set every step lowers it.
\<close>

fun wweight :: "'task wstate \<Rightarrow> nat" where
  "wweight Idle = 1"
| "wweight (Running t) = 2"
| "wweight Exited = 0"

definition drain_measure :: "'task pool \<Rightarrow> nat" where
  "drain_measure p = 3 * length (tasks p) + sum_list (map wweight (workers p))"

subsection \<open>A concrete run\<close>

text \<open>One thread; one task submitted, then the destructor runs.\<close>

definition demo0 :: "nat pool" where
  "demo0 = \<lparr>tasks = [], stop = False, workers = [Idle], submitted = [], started = [], finished = []\<rparr>"

definition demo1 :: "nat pool" where
  "demo1 = demo0\<lparr>tasks := [7], submitted := [7]\<rparr>"

definition demo2 :: "nat pool" where
  "demo2 = demo1\<lparr>stop := True\<rparr>"

definition demo3 :: "nat pool" where
  "demo3 = demo2\<lparr>tasks := [], workers := [Running 7], started := [7]\<rparr>"

definition demo4 :: "nat pool" where
  "demo4 = demo3\<lparr>workers := [Idle], finished := [7]\<rparr>"

definition demo5 :: "nat pool" where
  "demo5 = demo4\<lparr>workers := [Exited]\<rparr>"

lemmas demo_defs = demo0_def demo1_def demo2_def demo3_def demo4_def demo5_def

subsection \<open>Preservation of the invariant\<close>

lemma running_tasks_set: "Running t \<in> set ws \<Longrightarrow> t \<in> set (running_tasks ws)"
  by (induction ws rule: running_tasks.induct) auto

lemma running_tasks_Idle: "running_tasks (replicate n Idle) = []"
  by (induction n) simp_all

lemma mset_running_tasks_update:
  "i < length ws \<Longrightarrow>
   mset (running_tasks (ws[i := w])) + wtask (ws ! i) = mset (running_tasks ws) + wtask w"
proof (induction ws arbitrary: i)
  case (Cons v ws)
  then show ?case
    by (cases i; cases v; cases w) (simp_all add: wtask_def)
qed simp

lemma exited_update: "Exited \<in> set (ws[i := w]) \<Longrightarrow> w \<noteq> Exited \<Longrightarrow> Exited \<in> set ws"
  using set_update_subset_insert [of ws i w] by auto

lemma enqueue_inv: "pool_inv p \<Longrightarrow> enqueue t p = Inr p' \<Longrightarrow> pool_inv p'"
  by (auto simp: pool_inv_def enqueue_def split: if_splits)

lemma wake_inv: "pool_inv p \<Longrightarrow> worker_wake i p = Some p' \<Longrightarrow> pool_inv p'"
proof -
  assume inv: "pool_inv p" and w: "worker_wake i p = Some p'"
  then have i: "i < length (workers p)" "workers p ! i = Idle" "stop p \<or> tasks p \<noteq> []"
    by (auto simp: worker_wake_def split: if_splits)
  show "pool_inv p'"
  proof (cases "stop p \<and> tasks p = []")
    case True
    with w i have p': "p' = p\<lparr>workers := (workers p)[i := Exited]\<rparr>" by (simp add: worker_wake_def)
    have "mset (running_tasks ((workers p)[i := Exited])) = mset (running_tasks (workers p))"
      using mset_running_tasks_update [OF i(1), of Exited] i(2) by (simp add: wtask_def)
    with inv True show ?thesis by (auto simp: p' pool_inv_def)
  next
    case False
    with i have ne: "tasks p \<noteq> []" by auto
    let ?t = "hd (tasks p)"
    from False w i have p': "p' = p\<lparr>tasks := tl (tasks p), workers := (workers p)[i := Running ?t],
                      started := started p @ [?t]\<rparr>" by (auto simp: worker_wake_def)
    have r: "mset (running_tasks ((workers p)[i := Running ?t])) = mset (running_tasks (workers p)) + {#?t#}"
      using mset_running_tasks_update [OF i(1), of "Running ?t"] i(2) by (simp add: wtask_def)
    have "Exited \<notin> set (workers p)" using inv ne by (auto simp: pool_inv_def)
    then have "Exited \<notin> set ((workers p)[i := Running ?t])"
      using exited_update by blast
    moreover have "started p @ [?t] @ tl (tasks p) = submitted p"
      using inv ne by (simp add: pool_inv_def)
    ultimately show ?thesis
      using inv r by (simp add: p' pool_inv_def)
  qed
qed

lemma done_inv: "pool_inv p \<Longrightarrow> worker_done i p = Some p' \<Longrightarrow> pool_inv p'"
proof -
  assume inv: "pool_inv p" and d: "worker_done i p = Some p'"
  then obtain t where i: "i < length (workers p)" "workers p ! i = Running t"
    and p': "p' = p\<lparr>workers := (workers p)[i := Idle], finished := finished p @ [t]\<rparr>"
    by (auto simp: worker_done_def split: if_splits wstate.splits)
  have r: "mset (running_tasks ((workers p)[i := Idle])) + {#t#} = mset (running_tasks (workers p))"
    using mset_running_tasks_update [OF i(1), of Idle] i(2) by (simp add: wtask_def)
  have "Exited \<in> set ((workers p)[i := Idle]) \<Longrightarrow> Exited \<in> set (workers p)"
    using exited_update by blast
  moreover have "mset (started p) = mset (running_tasks ((workers p)[i := Idle])) + mset (finished p @ [t])"
    using inv r by (simp add: pool_inv_def flip: r)
  ultimately show ?thesis
    using inv by (auto simp: p' pool_inv_def)
qed

lemma shutdown_inv: "pool_inv p \<Longrightarrow> pool_inv (shutdown p)"
  by (simp add: pool_inv_def shutdown_def)

lemma pool_step_inv: "pool_step p p' \<Longrightarrow> pool_inv p \<Longrightarrow> pool_inv p'"
  by (induction rule: pool_step.induct) (auto intro: enqueue_inv wake_inv done_inv shutdown_inv)

lemma pool_create_inv: "pool_create n = Inr p \<Longrightarrow> pool_inv p"
  by (auto simp: pool_create_def pool_inv_def running_tasks_Idle split: if_splits)

lemma reachable_inv: "pool_reachable p \<Longrightarrow> pool_inv p"
  by (induction rule: pool_reachable.induct) (auto intro: pool_create_inv pool_step_inv)

subsection \<open>Drain: progress and termination\<close>

lemma wsum_update:
  "i < length ws \<Longrightarrow>
   sum_list (map wweight (ws[i := w])) + wweight (ws ! i) = sum_list (map wweight ws) + wweight w"
  by (induction ws arbitrary: i) (auto split: nat.splits)

lemma pool_step_stopped:
  assumes "pool_step p p'" "stop p"
  shows "stop p' \<and> submitted p' = submitted p \<and> drain_measure p' < drain_measure p"
  using assms
proof (induction rule: pool_step.induct)
  case (step_enqueue t p p')
  then show ?case by (simp add: enqueue_def)
next
  case (step_wake i p p')
  then have i: "i < length (workers p)" "workers p ! i = Idle"
    by (auto simp: worker_wake_def split: if_splits)
  note w = wsum_update [OF i(1)]
  show ?case
  proof (cases "tasks p = []")
    case True
    with step_wake i show ?thesis
      using w [of Exited] by (auto simp: worker_wake_def drain_measure_def)
  next
    case False
    with step_wake i show ?thesis
      using w [of "Running (hd (tasks p))"]
      by (cases "tasks p") (auto simp: worker_wake_def drain_measure_def)
  qed
next
  case (step_done i p p')
  then obtain t where i: "i < length (workers p)" "workers p ! i = Running t"
    by (auto simp: worker_done_def split: if_splits wstate.splits)
  with step_done show ?case
    using wsum_update [OF i(1), of Idle] by (auto simp: worker_done_def drain_measure_def)
next
  case (step_shutdown p)
  then show ?case by simp
qed

lemma pool_progress:
  assumes "stop p" "\<not> joined p"
  shows "\<exists>p'. pool_step p p'"
proof -
  from assms(2) obtain i where i: "i < length (workers p)" "workers p ! i \<noteq> Exited"
    by (auto simp: joined_def in_set_conv_nth)
  show ?thesis
  proof (cases "workers p ! i")
    case Idle
    then have "worker_wake i p \<noteq> None" using i assms(1) by (simp add: worker_wake_def)
    then show ?thesis by (auto intro: step_wake)
  next
    case (Running t)
    then have "worker_done i p \<noteq> None" using i by (simp add: worker_done_def)
    then show ?thesis by (auto intro: step_done)
  qed (use i in simp)
qed

lemma drain_reaches_joined: "stop p \<Longrightarrow> \<exists>p'. pool_step\<^sup>*\<^sup>* p p' \<and> joined p'"
proof (induction "drain_measure p" arbitrary: p rule: less_induct)
  case less
  show ?case
  proof (cases "joined p")
    case True
    then show ?thesis by blast
  next
    case False
    then obtain p1 where s: "pool_step p p1" using pool_progress less.prems by blast
    with less.prems have "stop p1" "drain_measure p1 < drain_measure p"
      using pool_step_stopped by blast+
    with less.hyps obtain p' where "pool_step\<^sup>*\<^sup>* p1 p'" "joined p'" by blast
    with s show ?thesis by (meson converse_rtranclp_into_rtranclp)
  qed
qed

lemma star_stopped:
  "pool_step\<^sup>*\<^sup>* p p' \<Longrightarrow> stop p \<Longrightarrow> stop p' \<and> submitted p' = submitted p"
  by (induction rule: rtranclp_induct) (auto dest: pool_step_stopped)

lemma reachable_star: "pool_step\<^sup>*\<^sup>* p p' \<Longrightarrow> pool_reachable p \<Longrightarrow> pool_reachable p'"
  by (induction rule: rtranclp_induct) (auto intro: reach_step)

lemma pool_step_workers: "pool_step p p' \<Longrightarrow> length (workers p') = length (workers p)"
  by (induction rule: pool_step.induct)
     (auto simp: enqueue_def worker_wake_def worker_done_def shutdown_def split: if_splits wstate.splits)

lemma reachable_workers: "pool_reachable p \<Longrightarrow> workers p \<noteq> []"
proof (induction rule: pool_reachable.induct)
  case (reach_create n p)
  then show ?case by (auto simp: pool_create_def split: if_splits)
next
  case (reach_step p p')
  then show ?case using pool_step_workers by fastforce
qed

lemma running_tasks_joined: "\<forall>w \<in> set ws. w = Exited \<Longrightarrow> running_tasks ws = []"
  by (induction ws rule: running_tasks.induct) auto

lemma drain_complete_aux:
  assumes "pool_reachable p" "joined p"
  shows "mset (finished p) = mset (submitted p) \<and> tasks p = [] \<and> running_tasks (workers p) = []"
proof -
  have inv: "pool_inv p" using assms(1) by (rule reachable_inv)
  have "Exited \<in> set (workers p)"
    using assms reachable_workers [OF assms(1)] by (auto simp: joined_def neq_Nil_conv)
  with inv have "tasks p = []" by (simp add: pool_inv_def)
  moreover have "running_tasks (workers p) = []"
    using assms(2) by (simp add: joined_def running_tasks_joined)
  ultimately show ?thesis using inv by (auto simp: pool_inv_def)
qed

lemma destructor_drains_aux:
  assumes "pool_reachable p"
  shows "\<exists>p'. pool_step\<^sup>*\<^sup>* (shutdown p) p' \<and> joined p' \<and>
              mset (finished p') = mset (submitted p)"
proof -
  have r: "pool_reachable (shutdown p)"
  proof (cases "stop p")
    case True
    then have "shutdown p = p" by (simp add: shutdown_def)
    with assms show ?thesis by simp
  next
    case False
    then show ?thesis using assms by (blast intro: reach_step step_shutdown)
  qed
  have st: "stop (shutdown p)" by (simp add: shutdown_def)
  then obtain p' where run: "pool_step\<^sup>*\<^sup>* (shutdown p) p'" and j: "joined p'"
    using drain_reaches_joined by blast
  have "submitted p' = submitted p"
    using star_stopped [OF run st] by (simp add: shutdown_def)
  moreover have "mset (finished p') = mset (submitted p')"
    using drain_complete_aux [OF reachable_star [OF run r] j] by blast
  ultimately show ?thesis using run j by auto
qed

subsection \<open>Properties of the pool\<close>

text \<open>
  C18: Invariant of every reachable pool state: tasks leave the queue in submission order
  (the started tasks followed by the queue are exactly the submitted ones), every started
  task is running on exactly one thread or finished, and a thread has returned from
  \<open>worker_loop\<close> only when the pool is stopping with an empty queue.
\<close>

theorem pool_reachable_inv: "pool_reachable p \<Longrightarrow> pool_inv p"
  by (rule reachable_inv)

text \<open>
  C19: When the destructor's joins have returned, the queue is empty, no task is running,
  and the finished tasks are exactly the submitted ones, each once: no task is lost,
  abandoned mid-flight or run twice.
\<close>

theorem drain_complete:
  "pool_reachable p \<Longrightarrow> joined p \<Longrightarrow>
   mset (finished p) = mset (submitted p) \<and> tasks p = [] \<and> running_tasks (workers p) = []"
  by (rule drain_complete_aux)

text \<open>
  C21: Termination of the drain: once \<open>stop_\<close> is set, every step of the pool
  (a thread popping a task, finishing one, or returning) lowers the drain measure, and no
  task is submitted any more.
\<close>

theorem drain_measure_decreases:
  "pool_step p p' \<Longrightarrow> stop p \<Longrightarrow>
   drain_measure p' < drain_measure p \<and> submitted p' = submitted p \<and> stop p'"
  using pool_step_stopped by blast

text \<open>
  C20: The destructor returns: from every reachable state, after \<open>stop_ = true\<close> the
  threads can run to the point where all have returned, and then every task submitted
  before has finished.
\<close>

theorem destructor_drains:
  "pool_reachable p \<Longrightarrow>
   \<exists>p'. pool_step\<^sup>*\<^sup>* (shutdown p) p' \<and> joined p' \<and> mset (finished p') = mset (submitted p)"
  by (rule destructor_drains_aux)

text \<open>
  C22: \<open>enqueue\<close> after the destructor has set \<open>stop_\<close> is rejected with the
  pool-stopped error, and from such a state no run accepts a task.
\<close>

theorem enqueue_after_stop:
  "stop p \<Longrightarrow> enqueue t p = Inl PoolStopped \<and>
   (\<forall>p'. pool_step\<^sup>*\<^sup>* p p' \<longrightarrow> submitted p' = submitted p)"
  using star_stopped by (auto simp: enqueue_def)

subsection \<open>Witnesses\<close>

lemma demo_reachable1: "pool_reachable demo1"
proof -
  have "pool_create 1 = Inr demo0" by (simp add: pool_create_def demo_defs)
  then have "pool_reachable demo0" by (rule reach_create)
  moreover have "enqueue 7 demo0 = Inr demo1" by (simp add: enqueue_def demo_defs)
  ultimately show ?thesis by (blast intro: reach_step step_enqueue)
qed

lemma demo_step2: "pool_step demo1 demo2"
proof -
  have "demo2 = shutdown demo1" by (simp add: shutdown_def demo_defs)
  then show ?thesis by (simp add: step_shutdown demo_defs)
qed

lemma demo_step3: "pool_step demo2 demo3"
  by (rule step_wake [of 0]) (simp add: worker_wake_def demo_defs)

lemma demo_step4: "pool_step demo3 demo4"
  by (rule step_done [of 0]) (simp add: worker_done_def demo_defs)

lemma demo_step5: "pool_step demo4 demo5"
  by (rule step_wake [of 0]) (simp add: worker_wake_def demo_defs)

lemma demo_run: "pool_step\<^sup>*\<^sup>* demo2 demo5"
  using demo_step3 demo_step4 demo_step5 by (meson converse_rtranclp_into_rtranclp rtranclp.rtrancl_refl)

lemma demo_reachable5: "pool_reachable demo5"
  using demo_reachable1 demo_step2 demo_run by (meson reach_step reachable_star)

theorem pool_reachable_inv_witness: "pool_reachable demo5 \<and> pool_inv demo5"
  using demo_reachable5 pool_reachable_inv [OF demo_reachable5] by blast

theorem drain_complete_witness:
  "pool_reachable demo5 \<and> joined demo5 \<and>
   mset (finished demo5) = mset (submitted demo5) \<and> tasks demo5 = [] \<and> running_tasks (workers demo5) = []"
proof -
  have j: "joined demo5" by (simp add: joined_def demo_defs)
  show ?thesis using demo_reachable5 j drain_complete [OF demo_reachable5 j] by blast
qed

theorem drain_measure_decreases_witness:
  "pool_step demo2 demo3 \<and> stop demo2 \<and>
   drain_measure demo3 < drain_measure demo2 \<and> submitted demo3 = submitted demo2 \<and> stop demo3"
proof -
  have s: "stop demo2" by (simp add: demo_defs)
  show ?thesis using demo_step3 s drain_measure_decreases [OF demo_step3 s] by blast
qed

theorem destructor_drains_witness:
  "pool_reachable demo1 \<and>
   (\<exists>p'. pool_step\<^sup>*\<^sup>* (shutdown demo1) p' \<and> joined p' \<and> mset (finished p') = mset (submitted demo1))"
  using demo_reachable1 destructor_drains [OF demo_reachable1] by blast

theorem enqueue_after_stop_witness:
  "stop demo2 \<and> enqueue 8 demo2 = Inl PoolStopped \<and> pool_step\<^sup>*\<^sup>* demo2 demo5 \<and>
   submitted demo5 = submitted demo2"
proof -
  have s: "stop demo2" by (simp add: demo_defs)
  show ?thesis using s demo_run enqueue_after_stop [OF s, of 8] by blast
qed

end
