(* ===== verification/Features.thy ===== *)
theory Features
  imports PacketParser Entropy
begin

text \<open>
  \<open>PacketParser::extract_features\<close> of \<open>packet_parser.cpp\<close>, over a model of the
  parsed \<open>nlohmann::json\<close> value. Objects are association lists; as the parser keeps
  the last of duplicate keys, lookup reads the last binding. The accessor
  \<open>pkt.value(key, default)\<close> throws \<open>type_error\<close> 306 on a non-object, returns the
  default for a missing key and otherwise converts the member with \<open>get<T>()\<close>, which
  throws \<open>type_error\<close> 302 on a member of the wrong type. The conversions to
  \<open>int\<close>, \<open>unsigned\<close> and the narrowing casts to \<open>uint16_t\<close> and
  \<open>uint8_t\<close> wrap modulo the width. A floating-point member converted to an integer
  type is undefined behaviour in C++ when out of range; the model follows the
  x86-64 conversion instruction (\<open>cvttsd2si\<close>): \<open>INT_MIN\<close> for \<open>int\<close>, the low
  32 bits of the 64-bit truncation for \<open>unsigned\<close>. JSON numbers are reals, integers
  converted to \<open>double\<close> exactly.
\<close>

datatype json =
    JNull
  | JBool bool
  | JInt int
  | JUInt nat
  | JFloat real
  | JString string
  | JArray "json list"
  | JObject "(string \<times> json) list"

datatype json_error = TypeError nat | ParseError

definition obj_lookup :: "(string \<times> json) list \<Rightarrow> string \<Rightarrow> json option" where
  "obj_lookup kvs k = map_of (rev kvs) k"

definition trunc_real :: "real \<Rightarrow> int" where
  "trunc_real x = (if 0 \<le> x then \<lfloor>x\<rfloor> else \<lceil>x\<rceil>)"

text \<open>\<open>get<int>()\<close>: numbers and booleans, cast to a 32-bit \<open>int\<close>.\<close>

definition get_int :: "json \<Rightarrow> json_error + c_int" where
  "get_int j =
     (case j of
        JInt i \<Rightarrow> Inr (word_of_int i)
      | JUInt n \<Rightarrow> Inr (word_of_nat n)
      | JFloat r \<Rightarrow> Inr (let t = trunc_real r in
                         if - (2 ^ 31) \<le> t \<and> t < 2 ^ 31 then word_of_int t else 0x80000000)
      | JBool b \<Rightarrow> Inr (if b then 1 else 0)
      | _ \<Rightarrow> Inl (TypeError 302))"

text \<open>\<open>get<unsigned>()\<close>.\<close>

definition get_uint :: "json \<Rightarrow> json_error + u32" where
  "get_uint j =
     (case j of
        JInt i \<Rightarrow> Inr (word_of_int i)
      | JUInt n \<Rightarrow> Inr (word_of_nat n)
      | JFloat r \<Rightarrow> Inr (let t = trunc_real r in
                         if - (2 ^ 63) \<le> t \<and> t < 2 ^ 63 then word_of_int t else 0)
      | JBool b \<Rightarrow> Inr (if b then 1 else 0)
      | _ \<Rightarrow> Inl (TypeError 302))"

text \<open>\<open>get<double>()\<close>: numbers only, booleans are refused.\<close>

definition get_double :: "json \<Rightarrow> json_error + real" where
  "get_double j =
     (case j of
        JInt i \<Rightarrow> Inr (of_int i)
      | JUInt n \<Rightarrow> Inr (of_nat n)
      | JFloat r \<Rightarrow> Inr r
      | _ \<Rightarrow> Inl (TypeError 302))"

definition get_string :: "json \<Rightarrow> json_error + string" where
  "get_string j = (case j of JString s \<Rightarrow> Inr s | _ \<Rightarrow> Inl (TypeError 302))"

text \<open>\<open>pkt.value(key, default)\<close> with the conversion \<open>get\<close> of the default's type.\<close>

definition json_value :: "(json \<Rightarrow> json_error + 'a) \<Rightarrow> json \<Rightarrow> string \<Rightarrow> 'a \<Rightarrow> json_error + 'a" where
  "json_value get j k d =
     (case j of
        JObject kvs \<Rightarrow> (case obj_lookup kvs k of None \<Rightarrow> Inr d | Some v \<Rightarrow> get v)
      | _ \<Rightarrow> Inl (TypeError 306))"

definition json_contains :: "json \<Rightarrow> string \<Rightarrow> bool" where
  "json_contains j k = (case j of JObject kvs \<Rightarrow> obj_lookup kvs k \<noteq> None | _ \<Rightarrow> False)"

text \<open>
  \<open>compute_entropy(pkt["payload_hex"].get<std::string>())\<close>, reached only when the
  key is present.
\<close>

definition payload_hex_entropy :: "json \<Rightarrow> json_error + real" where
  "payload_hex_entropy pkt =
     (case pkt of
        JObject kvs \<Rightarrow> (case obj_lookup kvs ''payload_hex'' of
                          Some v \<Rightarrow> map_sum id compute_entropy (get_string v)
                        | None \<Rightarrow> Inr 0)
      | _ \<Rightarrow> Inr 0)"

text \<open>
  The body of \<open>extract_features\<close>, statement by statement; the first statement that
  throws ends it.
\<close>

definition extract_features :: "json \<Rightarrow> json_error + PacketFeatures" where
  "extract_features pkt =
     bindE (json_value get_string pkt ''src_ip'' ''0.0.0.0'') (\<lambda>sip.
     bindE (json_value get_string pkt ''dst_ip'' ''0.0.0.0'') (\<lambda>dip.
     bindE (json_value get_string pkt ''protocol'' ''UNKNOWN'') (\<lambda>proto.
     bindE (json_value get_int pkt ''src_port'' 0) (\<lambda>sport.
     bindE (json_value get_int pkt ''dst_port'' 0) (\<lambda>dport.
     bindE (json_value get_uint pkt ''payload_len'' 0) (\<lambda>plen.
     bindE (json_value get_int pkt ''ttl'' 64) (\<lambda>ttl_v.
     bindE (json_value get_uint pkt ''tcp_flags'' 0) (\<lambda>flags.
     bindE (if json_contains pkt ''payload_hex'' then payload_hex_entropy pkt else Inr 0) (\<lambda>ent.
     bindE (json_value get_double pkt ''pkt_rate'' 0) (\<lambda>rate.
     Inr (features_default\<lparr>source_ip := sip, destination_ip := dip, protocol := proto,
            src_port := ucast sport, dst_port := ucast dport, payload_len := plen,
            ttl := ucast ttl_v, tcp_flags := ucast flags, payload_entropy := ent,
            pkt_rate := rate\<rparr>)))))))))))"

definition wrap_example :: PacketFeatures where
  "wrap_example =
     features_default\<lparr>source_ip := ''0.0.0.0'', destination_ip := ''0.0.0.0'', protocol := ''UNKNOWN'',
       dst_port := 4444, ttl := 0\<rparr>"

subsection \<open>Extraction lemmas\<close>

lemmas json_eval = extract_features_def json_value_def obj_lookup_def get_int_def get_uint_def
  get_double_def get_string_def json_contains_def payload_hex_entropy_def features_default_def

lemma extract_features_Inr:
  "extract_features pkt = Inr f \<Longrightarrow>
   (\<exists>w. json_value get_int pkt ''dst_port'' 0 = Inr w \<and> dst_port f = ucast w) \<and>
   (\<exists>w. json_value get_int pkt ''ttl'' 64 = Inr w \<and> ttl f = ucast w)"
  by (auto simp: extract_features_def bindE_eq_Inr_iff)

lemma unat_ucast_word_of_int16: "unat (ucast (word_of_int i :: c_int) :: u16) = nat (i mod 65536)"
  by (simp add: unsigned_ucast_eq unsigned_of_int take_bit_eq_mod nat_take_bit_eq mod_mod_cancel)

lemma unat_ucast_word_of_int8: "unat (ucast (word_of_int i :: c_int) :: u8) = nat (i mod 256)"
  by (simp add: unsigned_ucast_eq unsigned_of_int take_bit_eq_mod nat_take_bit_eq mod_mod_cancel)

lemma json_value_Inl:
  "json_value g j k d = Inl e \<Longrightarrow> (\<And>v. g v = Inl e \<Longrightarrow> e = TypeError 302) \<Longrightarrow>
   e = TypeError 302 \<or> e = TypeError 306"
  by (auto simp: json_value_def split: json.splits option.splits)

lemma get_Inl:
  "get_int v = Inl e \<Longrightarrow> e = TypeError 302"
  "get_uint v = Inl e \<Longrightarrow> e = TypeError 302"
  "get_double v = Inl e \<Longrightarrow> e = TypeError 302"
  "get_string v = Inl e \<Longrightarrow> e = TypeError 302"
  by (auto simp: get_int_def get_uint_def get_double_def get_string_def split: json.splits)

lemma payload_hex_entropy_Inl:
  "(if json_contains pkt ''payload_hex'' then payload_hex_entropy pkt else Inr 0) = Inl e \<Longrightarrow> e = TypeError 302"
  by (auto simp: payload_hex_entropy_def get_string_def split: json.splits option.splits if_splits)

lemma extract_features_Inr_all:
  "extract_features pkt = Inr f \<Longrightarrow>
   \<exists>sip dip proto sport dport plen ttl_v flags ent rate.
     json_value get_string pkt ''src_ip'' ''0.0.0.0'' = Inr sip \<and>
     json_value get_string pkt ''dst_ip'' ''0.0.0.0'' = Inr dip \<and>
     json_value get_string pkt ''protocol'' ''UNKNOWN'' = Inr proto \<and>
     json_value get_int pkt ''src_port'' 0 = Inr sport \<and>
     json_value get_int pkt ''dst_port'' 0 = Inr dport \<and>
     json_value get_uint pkt ''payload_len'' 0 = Inr plen \<and>
     json_value get_int pkt ''ttl'' 64 = Inr ttl_v \<and>
     json_value get_uint pkt ''tcp_flags'' 0 = Inr flags \<and>
     (if json_contains pkt ''payload_hex'' then payload_hex_entropy pkt else Inr 0) = Inr ent \<and>
     json_value get_double pkt ''pkt_rate'' 0 = Inr rate \<and>
     f = features_default\<lparr>source_ip := sip, destination_ip := dip, protocol := proto,
            src_port := ucast sport, dst_port := ucast dport, payload_len := plen,
            ttl := ucast ttl_v, tcp_flags := ucast flags, payload_entropy := ent, pkt_rate := rate\<rparr>"
  unfolding extract_features_def bindE_eq_Inr_iff by blast

lemma json_value_absent: "obj_lookup kvs k = None \<Longrightarrow> json_value g (JObject kvs) k d = Inr d"
  by (simp add: json_value_def)

lemma json_value_present: "obj_lookup kvs k = Some v \<Longrightarrow> json_value g (JObject kvs) k d = g v"
  by (simp add: json_value_def)

lemma json_value_obj_Inl:
  "json_value g (JObject kvs) k d = Inl e \<Longrightarrow> (\<And>v. g v = Inl e \<Longrightarrow> e = TypeError 302) \<Longrightarrow> e = TypeError 302"
  by (auto simp: json_value_def split: option.splits)

lemma extract_object_Inl: "extract_features (JObject kvs) = Inl e \<Longrightarrow> e = TypeError 302"
  unfolding extract_features_def
  by (erule bindE_InlE, blast dest: json_value_obj_Inl get_Inl payload_hex_entropy_Inl)+ simp

subsection \<open>Properties of the extraction\<close>

text \<open>
  The benign scenario of the specification: a packet record with no fields takes the
  documented defaults (addresses \<open>0.0.0.0\<close>, protocol \<open>UNKNOWN\<close>, TTL 64, all
  numbers 0), scores 0 with severity low and the fixed no-anomaly description.
\<close>

theorem extract_empty_is_benign:
  "\<exists>f. extract_features (JObject []) = Inr f \<and> source_ip f = ''0.0.0.0'' \<and> protocol f = ''UNKNOWN'' \<and>
       ttl f = 64 \<and> ar_score (score f) = 0 \<and> ar_severity (score f) = ''low'' \<and>
       ar_description (score f) = ''No anomalies detected.''"
proof -
  let ?f = "features_default\<lparr>source_ip := ''0.0.0.0'', destination_ip := ''0.0.0.0'', protocol := ''UNKNOWN''\<rparr>"
  have e: "extract_features (JObject []) = Inr ?f" by (simp add: json_eval)
  have "ar_score (score ?f) = 0 \<and> ar_severity (score ?f) = ''low'' \<and>
        ar_description (score ?f) = ''No anomalies detected.''"
    by (simp add: score_def score_acc_def rule_step_def rules_eval describe_def severity_label_def
        dlit_weights grid_eval dyadic_0)
  with e show ?thesis by (auto simp: features_default_def)
qed

text \<open>
  C31: Missing fields take the documented defaults: in every packet record that
  extracts, each absent member gives its default (addresses \<open>0.0.0.0\<close>, protocol
  \<open>UNKNOWN\<close>, TTL 64, every number 0, entropy 0 without \<open>payload_hex\<close>), whatever
  the other members are.
\<close>

theorem extract_defaults:
  "extract_features (JObject kvs) = Inr f \<Longrightarrow>
   (obj_lookup kvs ''src_ip'' = None \<longrightarrow> source_ip f = ''0.0.0.0'') \<and>
   (obj_lookup kvs ''dst_ip'' = None \<longrightarrow> destination_ip f = ''0.0.0.0'') \<and>
   (obj_lookup kvs ''protocol'' = None \<longrightarrow> protocol f = ''UNKNOWN'') \<and>
   (obj_lookup kvs ''src_port'' = None \<longrightarrow> src_port f = 0) \<and>
   (obj_lookup kvs ''dst_port'' = None \<longrightarrow> dst_port f = 0) \<and>
   (obj_lookup kvs ''payload_len'' = None \<longrightarrow> payload_len f = 0) \<and>
   (obj_lookup kvs ''ttl'' = None \<longrightarrow> ttl f = 64) \<and>
   (obj_lookup kvs ''tcp_flags'' = None \<longrightarrow> tcp_flags f = 0) \<and>
   (obj_lookup kvs ''payload_hex'' = None \<longrightarrow> payload_entropy f = 0) \<and>
   (obj_lookup kvs ''pkt_rate'' = None \<longrightarrow> pkt_rate f = 0)"
  by (drule extract_features_Inr_all) (auto simp: json_value_absent json_contains_def)

text \<open>
  C32: The only exceptions \<open>extract_features\<close> throws are \<open>type_error\<close> 306 (the
  record is not an object) and 302 (a present field has the wrong type); a missing field
  never fails.
\<close>

theorem extract_features_errors:
  "extract_features pkt = Inl e \<Longrightarrow> e = TypeError 302 \<or> e = TypeError 306"
  unfolding extract_features_def
  by (erule bindE_InlE, blast dest: json_value_Inl get_Inl payload_hex_entropy_Inl)+ simp

text \<open>
  C33: A field of the wrong type is not replaced by its default, contrary to the
  specification's "missing or invalid fields take defaults": in any packet record, a
  port or TTL member that \<open>get<int>()\<close> refuses (a string, null, array or object)
  makes the whole extraction throw \<open>type_error\<close> 302.
\<close>

theorem extract_wrong_type_throws:
  "k \<in> {''src_port'', ''dst_port'', ''ttl''} \<Longrightarrow> obj_lookup kvs k = Some v \<Longrightarrow> get_int v = Inl e \<Longrightarrow>
   extract_features (JObject kvs) = Inl (TypeError 302)"
proof (cases "extract_features (JObject kvs)")
  case (Inl e')
  then show ?thesis using extract_object_Inl by simp
next
  case (Inr f)
  assume "k \<in> {''src_port'', ''dst_port'', ''ttl''}" "obj_lookup kvs k = Some v" "get_int v = Inl e"
  then have "json_value get_int (JObject kvs) k d = Inl e" for d by (simp add: json_value_present)
  then show ?thesis using extract_features_Inr_all [OF Inr] \<open>k \<in> _\<close> by auto
qed

text \<open>
  C36: Wrap-around of the port: an integer \<open>dst_port\<close> member is narrowed to
  \<open>uint16_t\<close>, so the port scored is the value modulo \<open>2^16\<close>.
\<close>

theorem dst_port_wraps:
  "obj_lookup kvs ''dst_port'' = Some (JInt i) \<Longrightarrow> extract_features (JObject kvs) = Inr f \<Longrightarrow>
   unat (dst_port f) = nat (i mod 65536)"
  by (auto dest!: extract_features_Inr simp: json_value_def get_int_def unat_ucast_word_of_int16)

text \<open>
  Wrap-around of the TTL: an integer \<open>ttl\<close> member is narrowed to
  \<open>uint8_t\<close>, so the TTL scored is the value modulo 256.
\<close>

theorem ttl_wraps:
  "obj_lookup kvs ''ttl'' = Some (JInt i) \<Longrightarrow> extract_features (JObject kvs) = Inr f \<Longrightarrow>
   unat (ttl f) = nat (i mod 256)"
  by (auto dest!: extract_features_Inr simp: json_value_def get_int_def unat_ucast_word_of_int8)

subsection \<open>Witnesses\<close>

theorem extract_features_errors_witness:
  "extract_features (JArray []) = Inl (TypeError 306) \<and> (TypeError 306 = TypeError 302 \<or> TypeError 306 = TypeError 306)"
proof -
  have h: "extract_features (JArray []) = Inl (TypeError 306)" by (simp add: json_eval)
  show ?thesis using h extract_features_errors [OF h] by blast
qed

text \<open>Port 69980 is scored as the suspicious port 4444; TTL 256 as the abnormal TTL 0.\<close>

theorem dst_port_wraps_witness:
  "obj_lookup [(''dst_port'', JInt 69980), (''ttl'', JInt 256)] ''dst_port'' = Some (JInt 69980) \<and>
   extract_features (JObject [(''dst_port'', JInt 69980), (''ttl'', JInt 256)]) = Inr wrap_example \<and>
   unat (dst_port wrap_example) = 4444"
proof -
  have l: "obj_lookup [(''dst_port'', JInt 69980), (''ttl'', JInt 256)] ''dst_port'' = Some (JInt 69980)"
    by (simp add: obj_lookup_def)
  have e: "extract_features (JObject [(''dst_port'', JInt 69980), (''ttl'', JInt 256)]) = Inr wrap_example"
    by (simp add: json_eval wrap_example_def)
  show ?thesis using l e dst_port_wraps [OF l e] by simp
qed

theorem ttl_wraps_witness:
  "obj_lookup [(''dst_port'', JInt 69980), (''ttl'', JInt 256)] ''ttl'' = Some (JInt 256) \<and>
   extract_features (JObject [(''dst_port'', JInt 69980), (''ttl'', JInt 256)]) = Inr wrap_example \<and>
   unat (ttl wrap_example) = 0 \<and> ttl_rule wrap_example"
proof -
  have l: "obj_lookup [(''dst_port'', JInt 69980), (''ttl'', JInt 256)] ''ttl'' = Some (JInt 256)"
    by (simp add: obj_lookup_def)
  have e: "extract_features (JObject [(''dst_port'', JInt 69980), (''ttl'', JInt 256)]) = Inr wrap_example"
    by (simp add: json_eval wrap_example_def)
  have "ttl_rule wrap_example" by (simp add: ttl_rule_def wrap_example_def features_default_def)
  then show ?thesis using l e ttl_wraps [OF l e] by simp
qed


theorem extract_defaults_witness:
  "extract_features (JObject []) =
     Inr (features_default\<lparr>source_ip := ''0.0.0.0'', destination_ip := ''0.0.0.0'', protocol := ''UNKNOWN''\<rparr>) \<and>
   obj_lookup [] ''ttl'' = None \<and> obj_lookup [] ''src_ip'' = None \<and> obj_lookup [] ''protocol'' = None \<and>
   ttl (features_default\<lparr>source_ip := ''0.0.0.0'', destination_ip := ''0.0.0.0'', protocol := ''UNKNOWN''\<rparr>) = 64 \<and>
   source_ip (features_default\<lparr>source_ip := ''0.0.0.0'', destination_ip := ''0.0.0.0'', protocol := ''UNKNOWN''\<rparr>) = ''0.0.0.0''"
proof -
  have e: "extract_features (JObject []) =
     Inr (features_default\<lparr>source_ip := ''0.0.0.0'', destination_ip := ''0.0.0.0'', protocol := ''UNKNOWN''\<rparr>)"
    by (simp add: json_eval)
  show ?thesis using e extract_defaults [OF e] by (simp add: obj_lookup_def)
qed

theorem extract_wrong_type_throws_witness:
  "''ttl'' \<in> {''src_port'', ''dst_port'', ''ttl''} \<and> obj_lookup [(''ttl'', JString ''x'')] ''ttl'' = Some (JString ''x'') \<and>
   get_int (JString ''x'') = Inl (TypeError 302) \<and>
   extract_features (JObject [(''ttl'', JString ''x'')]) = Inl (TypeError 302)"
proof -
  have h: "''ttl'' \<in> {''src_port'', ''dst_port'', ''ttl''}" "obj_lookup [(''ttl'', JString ''x'')] ''ttl'' = Some (JString ''x'')"
    "get_int (JString ''x'') = Inl (TypeError 302)" by (simp_all add: obj_lookup_def get_int_def)
  show ?thesis using h extract_wrong_type_throws [OF h] by blast
qed

end
