(* ===== verification/Ipv4Regex.thy ===== *)
theory Ipv4Regex
  imports Features
begin

text \<open>
  \<open>IPV4_RE\<close> of \<open>packet_parser.cpp\<close>, the \<open>std::regex\<close> (ECMAScript grammar)
  \<open>^((25[0-5]|2[0-4]\d|[01]?\d\d?)\.){3}(25[0-5]|2[0-4]\d|[01]?\d\d?)$\<close>. The regular
  expressions it uses are single characters from a bracket class (a list of ranges; a
  literal is a one-character range), the empty word, alternation and concatenation; \<open>r?\<close>
  is \<open>r|\<close> and \<open>r{3}\<close> is \<open>rrr\<close>. The anchors \<open>^\<close> and \<open>$\<close> make a match a match of
  the whole string, so the backtracking matcher accepts exactly the strings of the
  expression's language. The matcher here is Brzozowski's derivative matcher, proved
  equal to that language.
\<close>

datatype rx =
    RZero
  | ROne
  | RCls "(char \<times> char) list"
  | RAlt rx rx
  | RSeq rx rx

definition in_cls :: "(char \<times> char) list \<Rightarrow> char \<Rightarrow> bool" where
  "in_cls rs c \<longleftrightarrow> list_ex (\<lambda>(lo, hi). of_char lo \<le> (of_char c :: nat) \<and> of_char c \<le> (of_char hi :: nat)) rs"

primrec rx_lang :: "rx \<Rightarrow> string set" where
  "rx_lang RZero = {}"
| "rx_lang ROne = {[]}"
| "rx_lang (RCls rs) = {[c] | c. in_cls rs c}"
| "rx_lang (RAlt r s) = rx_lang r \<union> rx_lang s"
| "rx_lang (RSeq r s) = {u @ v | u v. u \<in> rx_lang r \<and> v \<in> rx_lang s}"

primrec nullable :: "rx \<Rightarrow> bool" where
  "nullable RZero = False"
| "nullable ROne = True"
| "nullable (RCls rs) = False"
| "nullable (RAlt r s) = (nullable r \<or> nullable s)"
| "nullable (RSeq r s) = (nullable r \<and> nullable s)"

primrec rx_deriv :: "char \<Rightarrow> rx \<Rightarrow> rx" where
  "rx_deriv c RZero = RZero"
| "rx_deriv c ROne = RZero"
| "rx_deriv c (RCls rs) = (if in_cls rs c then ROne else RZero)"
| "rx_deriv c (RAlt r s) = RAlt (rx_deriv c r) (rx_deriv c s)"
| "rx_deriv c (RSeq r s) =
     (if nullable r then RAlt (RSeq (rx_deriv c r) s) (rx_deriv c s) else RSeq (rx_deriv c r) s)"

definition rx_match :: "rx \<Rightarrow> string \<Rightarrow> bool" where
  "rx_match r s = nullable (fold rx_deriv s r)"

text \<open>The pieces of the pattern: \<open>\d\<close>, \<open>r?\<close>, a literal character.\<close>

definition rx_digit :: rx where
  "rx_digit = RCls [(CHR ''0'', CHR ''9'')]"

definition rx_opt :: "rx \<Rightarrow> rx" where
  "rx_opt r = RAlt r ROne"

definition rx_chr :: "char \<Rightarrow> rx" where
  "rx_chr c = RCls [(c, c)]"

definition octet_rx :: rx where
  "octet_rx =
     RAlt (RSeq (rx_chr CHR ''2'') (RSeq (rx_chr CHR ''5'') (RCls [(CHR ''0'', CHR ''5'')])))
      (RAlt (RSeq (rx_chr CHR ''2'') (RSeq (RCls [(CHR ''0'', CHR ''4'')]) rx_digit))
            (RSeq (rx_opt (RCls [(CHR ''0'', CHR ''0''), (CHR ''1'', CHR ''1'')])) (RSeq rx_digit (rx_opt rx_digit))))"

definition IPV4_RE :: rx where
  "IPV4_RE =
     (let g = RSeq octet_rx (rx_chr CHR ''.'') in RSeq (RSeq g (RSeq g g)) octet_rx)"

text \<open>
  The reference: a dotted quad, four fields between dots, each of one to three decimal
  digits with a value of at most 255.
\<close>

fun split_dots :: "string \<Rightarrow> string list" where
  "split_dots [] = [[]]"
| "split_dots (c # cs) =
     (if c = CHR ''.'' then [] # split_dots cs
      else (let ws = split_dots cs in (c # hd ws) # tl ws))"

definition octet_ok :: "string \<Rightarrow> bool" where
  "octet_ok w \<longleftrightarrow> w \<noteq> [] \<and> length w \<le> 3 \<and> list_all is_digit w \<and> string_to_nat w \<le> 255"

definition ipv4_valid :: "string \<Rightarrow> bool" where
  "ipv4_valid s \<longleftrightarrow> length (split_dots s) = 4 \<and> list_all octet_ok (split_dots s)"

definition show_ipv4 :: "u8 \<Rightarrow> u8 \<Rightarrow> u8 \<Rightarrow> u8 \<Rightarrow> string" where
  "show_ipv4 a b c d =
     nat_to_string (unat a) @ ''.'' @ nat_to_string (unat b) @ ''.'' @ nat_to_string (unat c) @ ''.'' @
     nat_to_string (unat d)"

definition parse_ipv4 :: "string \<Rightarrow> (u8 \<times> u8 \<times> u8 \<times> u8) option" where
  "parse_ipv4 s =
     (if ipv4_valid s then
        (case map (\<lambda>w. of_nat (string_to_nat w)) (split_dots s) of
           [a, b, c, d] \<Rightarrow> Some (a, b, c, d) | _ \<Rightarrow> None)
      else None)"

subsection \<open>The matcher\<close>

lemma nullable_lang: "nullable r \<longleftrightarrow> [] \<in> rx_lang r"
  by (induction r) auto

lemma rx_deriv_lang: "w \<in> rx_lang (rx_deriv c r) \<longleftrightarrow> c # w \<in> rx_lang r"
proof (induction r arbitrary: w)
  case (RSeq r s)
  show ?case
    using RSeq.IH by (auto simp: nullable_lang Cons_eq_append_conv)
qed auto

lemma rx_match_lang: "rx_match r s \<longleftrightarrow> s \<in> rx_lang r"
  by (induction s arbitrary: r) (simp_all add: rx_match_def nullable_lang rx_deriv_lang)


subsection \<open>The octet\<close>

lemma cls_lang: "w \<in> rx_lang (RCls rs) \<longleftrightarrow> (case w of [c] \<Rightarrow> in_cls rs c | _ \<Rightarrow> False)"
  by (auto split: list.splits)

lemma seq_in: "u \<in> rx_lang r \<Longrightarrow> v \<in> rx_lang r' \<Longrightarrow> u @ v \<in> rx_lang (RSeq r r')"
  by auto

lemma seq_cls_lang:
  "w \<in> rx_lang (RSeq (RCls rs) r) \<longleftrightarrow> (case w of [] \<Rightarrow> False | c # w' \<Rightarrow> in_cls rs c \<and> w' \<in> rx_lang r)"
proof (cases w)
  case (Cons c w')
  have "c # w' \<in> rx_lang (RSeq (RCls rs) r) \<longleftrightarrow> in_cls rs c \<and> w' \<in> rx_lang r"
  proof
    assume "c # w' \<in> rx_lang (RSeq (RCls rs) r)"
    then show "in_cls rs c \<and> w' \<in> rx_lang r" by auto
  next
    assume "in_cls rs c \<and> w' \<in> rx_lang r"
    then have "[c] @ w' \<in> rx_lang (RSeq (RCls rs) r)" by (intro seq_in) auto
    then show "c # w' \<in> rx_lang (RSeq (RCls rs) r)" by simp
  qed
  then show ?thesis using Cons by simp
qed auto

lemma seq_opt_lang: "w \<in> rx_lang (RSeq (RAlt r ROne) r') \<longleftrightarrow> w \<in> rx_lang (RSeq r r') \<or> w \<in> rx_lang r'"
  by auto

lemma in_cls_range: "in_cls [(lo, hi)] c \<longleftrightarrow> of_char lo \<le> (of_char c :: nat) \<and> of_char c \<le> (of_char hi :: nat)"
  by (simp add: in_cls_def)

lemma in_cls_pair:
  "in_cls [(lo, lo), (hi, hi)] c \<longleftrightarrow> of_char c = (of_char lo :: nat) \<or> of_char c = (of_char hi :: nat)"
  by (auto simp: in_cls_def)

lemmas octet_lang_simps = cls_lang seq_cls_lang seq_opt_lang in_cls_range in_cls_pair
  octet_rx_def rx_opt_def rx_chr_def rx_digit_def

lemma digits3_le_255:
  "(a::nat) \<le> 9 \<Longrightarrow> b \<le> 9 \<Longrightarrow> c \<le> 9 \<Longrightarrow>
   100 * a + 10 * b + c \<le> 255 \<longleftrightarrow> a \<le> 1 \<or> (a = 2 \<and> b \<le> 4) \<or> (a = 2 \<and> b = 5 \<and> c \<le> 5)"
  by (cases "a \<le> 1"; cases "a = 2"; cases "b \<le> 4"; cases "b = 5") auto

lemma digit_of_char: "is_digit c \<Longrightarrow> \<exists>d \<le> 9. of_char c = (48 + d :: nat)"
  by (rule exI [of _ "of_char c - 48"]) (auto simp: is_digit_def)

lemma octet_1l: "[a] \<in> rx_lang octet_rx \<longleftrightarrow> octet_ok [a]"
  by (auto simp del: rx_lang.simps(5) simp: octet_lang_simps octet_ok_def is_digit_def string_to_nat_def digit_val_def)

lemma octet_2l: "[a, b] \<in> rx_lang octet_rx \<longleftrightarrow> octet_ok [a, b]"
  by (auto simp del: rx_lang.simps(5) simp: octet_lang_simps octet_ok_def is_digit_def string_to_nat_def digit_val_def)

lemma octet_3l: "[a, b, c] \<in> rx_lang octet_rx \<longleftrightarrow> octet_ok [a, b, c]"
proof (cases "is_digit a \<and> is_digit b \<and> is_digit c")
  case True
  then obtain da db dc :: nat where d: "da \<le> 9" "db \<le> 9" "dc \<le> 9"
      "of_char a = 48 + da" "of_char b = 48 + db" "of_char c = (48 + dc :: nat)"
    using digit_of_char by metis
  show ?thesis
    using d digits3_le_255 [OF d(1-3)]
    by (simp del: rx_lang.simps(5) add: octet_lang_simps octet_ok_def is_digit_def string_to_nat_def digit_val_def)
      arith
next
  case False
  then show ?thesis
    by (auto simp del: rx_lang.simps(5) simp: octet_lang_simps octet_ok_def is_digit_def)
qed

lemma octet_lang_length: "w \<in> rx_lang octet_rx \<Longrightarrow> 1 \<le> length w \<and> length w \<le> 3"
  by (auto simp: octet_rx_def rx_opt_def rx_chr_def rx_digit_def)

lemma short_cases:
  "1 \<le> length w \<Longrightarrow> length w \<le> 3 \<Longrightarrow> (\<exists>a. w = [a]) \<or> (\<exists>a b. w = [a, b]) \<or> (\<exists>a b c. w = [a, b, c])"
  by (cases w; cases "tl w"; cases "tl (tl w)"; cases "tl (tl (tl w))") auto

lemma octet_lang: "w \<in> rx_lang octet_rx \<longleftrightarrow> octet_ok w"
proof (cases "1 \<le> length w \<and> length w \<le> 3")
  case True
  then consider a where "w = [a]" | a b where "w = [a, b]" | a b c where "w = [a, b, c]"
    using short_cases by blast
  then show ?thesis by cases (simp_all only: octet_1l octet_2l octet_3l)
next
  case False
  then show ?thesis using octet_lang_length [of w] by (auto simp: octet_ok_def Suc_le_eq)
qed

subsection \<open>The dotted quad\<close>

lemma in_cls_single [simp]: "in_cls [(x, x)] c \<longleftrightarrow> c = x"
  by (auto simp: in_cls_def)

lemma ipv4_lang:
  "s \<in> rx_lang IPV4_RE \<longleftrightarrow>
   (\<exists>a b c d. octet_ok a \<and> octet_ok b \<and> octet_ok c \<and> octet_ok d \<and>
      s = a @ CHR ''.'' # b @ CHR ''.'' # c @ CHR ''.'' # d)"
proof
  assume "s \<in> rx_lang IPV4_RE"
  then show "\<exists>a b c d. octet_ok a \<and> octet_ok b \<and> octet_ok c \<and> octet_ok d \<and>
      s = a @ CHR ''.'' # b @ CHR ''.'' # c @ CHR ''.'' # d"
    by (auto simp: IPV4_RE_def Let_def rx_chr_def octet_lang [symmetric]) blast
next
  assume "\<exists>a b c d. octet_ok a \<and> octet_ok b \<and> octet_ok c \<and> octet_ok d \<and>
      s = a @ CHR ''.'' # b @ CHR ''.'' # c @ CHR ''.'' # d"
  then obtain a b c d where o: "octet_ok a" "octet_ok b" "octet_ok c" "octet_ok d"
      and eq: "s = ((a @ ''.'') @ ((b @ ''.'') @ (c @ ''.''))) @ d" by auto
  have g: "w @ ''.'' \<in> rx_lang (RSeq octet_rx (rx_chr CHR ''.''))" if "octet_ok w" for w
    using that by (intro seq_in) (simp_all add: octet_lang rx_chr_def)
  show "s \<in> rx_lang IPV4_RE"
    unfolding IPV4_RE_def Let_def eq by (intro seq_in g o) (simp add: octet_lang o)
qed

lemma octet_no_dot: "octet_ok w \<Longrightarrow> CHR ''.'' \<notin> set w"
  by (auto simp: octet_ok_def list_all_iff is_digit_def)

lemma split_dots_single: "CHR ''.'' \<notin> set a \<Longrightarrow> split_dots a = [a]"
  by (induction a) auto

lemma split_dots_app: "CHR ''.'' \<notin> set a \<Longrightarrow> split_dots (a @ CHR ''.'' # r) = a # split_dots r"
  by (induction a) auto

lemma split_dots_ne: "split_dots s \<noteq> []"
  by (induction s) (auto simp: Let_def)

lemma split_dots_Cons:
  "split_dots s = w # ws \<Longrightarrow>
   CHR ''.'' \<notin> set w \<and> (ws = [] \<and> s = w \<or> (\<exists>r. s = w @ CHR ''.'' # r \<and> split_dots r = ws))"
proof (induction s arbitrary: w ws)
  case (Cons c cs)
  show ?case
  proof (cases "c = CHR ''.''")
    case True
    then show ?thesis using Cons.prems by auto
  next
    case False
    obtain w' ws' where sp: "split_dots cs = w' # ws'" using split_dots_ne [of cs] by (cases "split_dots cs") auto
    then have "w = c # w'" "ws = ws'" using Cons.prems False by auto
    then show ?thesis using Cons.IH [OF sp] False by auto
  qed
qed auto

lemma split_dots_one: "split_dots s = [w] \<Longrightarrow> s = w"
  using split_dots_Cons [of s w "[]"] by (auto simp: split_dots_ne)

lemma split_dots_more:
  "split_dots s = w # w' # ws \<Longrightarrow> \<exists>r. s = w @ CHR ''.'' # r \<and> split_dots r = w' # ws"
  using split_dots_Cons [of s w "w' # ws"] by auto

lemma ipv4_match_valid: "rx_match IPV4_RE s \<longleftrightarrow> ipv4_valid s"
proof
  assume "rx_match IPV4_RE s"
  then obtain a b c d where o: "octet_ok a" "octet_ok b" "octet_ok c" "octet_ok d"
      and s: "s = a @ CHR ''.'' # b @ CHR ''.'' # c @ CHR ''.'' # d"
    by (auto simp: rx_match_lang ipv4_lang)
  then have "split_dots s = [a, b, c, d]" by (simp add: octet_no_dot split_dots_app split_dots_single)
  then show "ipv4_valid s" using o by (simp add: ipv4_valid_def)
next
  assume v: "ipv4_valid s"
  then obtain a b c d where sp: "split_dots s = [a, b, c, d]"
    by (auto simp: ipv4_valid_def length_Suc_conv numeral_eq_Suc)
  then have "s = a @ CHR ''.'' # b @ CHR ''.'' # c @ CHR ''.'' # d"
    by (auto dest!: split_dots_more split_dots_one)
  then show "rx_match IPV4_RE s" using v sp by (auto simp: rx_match_lang ipv4_lang ipv4_valid_def)
qed


subsection \<open>Printing and reading back\<close>

lemma nat_to_string_short: "n < 1000 \<Longrightarrow> length (nat_to_string n) \<le> 3"
proof -
  have l: "length (nat_to_string m) = (if m < 10 then 1 else Suc (length (nat_to_string (m div 10))))" for m
    by (simp add: nat_to_string.simps [of m])
  assume "n < 1000"
  then show ?thesis by (simp add: l [of n] l [of "n div 10"] l [of "n div 10 div 10"])
qed

lemma octet_of_u8: "octet_ok (nat_to_string (unat (x :: u8)))"
proof -
  have "length (nat_to_string (unat x)) \<le> 3" using unat_u8_less [of x] by (simp add: nat_to_string_short)
  moreover have "unat x \<le> 255" using unat_u8_less [of x] by simp
  ultimately show ?thesis
    using nat_to_string_digits [of "unat x"] nat_to_string_nonempty [of "unat x"]
    by (simp add: octet_ok_def list_all_iff nat_to_string_roundtrip)
qed

lemma split_show_ipv4:
  "split_dots (show_ipv4 a b c d) =
     [nat_to_string (unat a), nat_to_string (unat b), nat_to_string (unat c), nat_to_string (unat d)]"
  by (simp add: show_ipv4_def octet_no_dot [OF octet_of_u8] split_dots_app split_dots_single)

lemma score_addresses: "ar_source_ip (score f) = source_ip f \<and> ar_destination_ip (score f) = destination_ip f"
  by (simp add: score_def Let_def split: prod.splits)

lemma ipv4_rejects_999: "\<not> rx_match IPV4_RE ''999.0.0.1''"
  by (simp add: ipv4_match_valid ipv4_valid_def octet_ok_def string_to_nat_def digit_val_def)

subsection \<open>Properties\<close>

text \<open>
  C35: \<open>IPV4_RE\<close> accepts exactly the dotted quads: four fields separated by dots, each of
  one to three decimal digits (leading zeros allowed) with a value of at most 255.
\<close>

theorem ipv4_re_equiv: "rx_match IPV4_RE s \<longleftrightarrow> ipv4_valid s"
  by (rule ipv4_match_valid)

text \<open>
  Round trip: an address printed as four decimal bytes separated by dots is accepted
  by \<open>IPV4_RE\<close>, and reading its fields back gives the four bytes.
\<close>

theorem ipv4_roundtrip:
  "rx_match IPV4_RE (show_ipv4 a b c d) \<and> parse_ipv4 (show_ipv4 a b c d) = Some (a, b, c, d)"
proof -
  have v: "ipv4_valid (show_ipv4 a b c d)" by (simp add: ipv4_valid_def split_show_ipv4 octet_of_u8)
  then show ?thesis by (simp add: ipv4_match_valid parse_ipv4_def split_show_ipv4 nat_to_string_roundtrip)
qed

text \<open>
  C34: \<open>IPV4_RE\<close> is declared and never used: \<open>extract_features\<close> keeps any string
  as source and destination address, and \<open>score\<close> passes it on to the anomaly, so an
  address the pattern rejects (\<open>ipv4_rejects_999\<close>) is neither replaced by the default
  \<open>0.0.0.0\<close> nor refused.
\<close>

theorem address_not_validated:
  "\<exists>f. extract_features (JObject [(''src_ip'', JString s), (''dst_ip'', JString t)]) = Inr f \<and>
       source_ip f = s \<and> destination_ip f = t \<and> ar_source_ip (score f) = s \<and> ar_destination_ip (score f) = t"
  by (simp add: json_eval score_addresses)

end
