(* ===== verification/Worker.thy ===== *)
theory Worker
  imports Features
begin

text \<open>
  The per-message work of \<open>main.cpp\<close>: the sink client \<open>post_anomaly\<close> and the task
  \<open>process_message\<close> that the pool runs for one stream entry. The network is an
  environment: \<open>libcurl\<close> is a function from the request the code builds to the result
  of \<open>curl_easy_init\<close>/\<open>curl_easy_perform\<close>/\<open>CURLINFO_RESPONSE_CODE\<close>, and
  \<open>json::parse\<close> is a parameter returning the parsed value or a parse error. What a task
  does to the outside world is a list of effects in the order the code performs them:
  the HTTP request, the \<open>XACK\<close> command on the shared acknowledge connection (issued under
  the mutex \<open>mtx\<close>, so it is one atomic effect), and the lines written to
  \<open>std::cerr\<close>.
\<close>

subsection \<open>The sink client\<close>

record http_request =
  req_url :: string
  req_body :: json
  req_headers :: "string list"
  req_timeout :: nat
  req_nosignal :: bool

text \<open>
  What \<open>libcurl\<close> reports: \<open>curl_easy_init\<close> returned null, \<open>curl_easy_perform\<close>
  failed with a \<open>CURLcode\<close> other than \<open>CURLE_OK\<close>, or the transfer completed and
  the server answered with a status code.
\<close>

datatype curl_result = CurlInitFailed | CurlPerformFailed nat | CurlCompleted int

datatype effect =
    HttpPost http_request
  | Xack string string string
  | LogErr string

definition anomaly_body :: "AnomalyResult \<Rightarrow> json" where
  "anomaly_body res =
     JObject [(''anomaly'', JObject
       [(''source_ip'', JString (ar_source_ip res)),
        (''destination_ip'', JString (ar_destination_ip res)),
        (''protocol'', JString (ar_protocol res)),
        (''severity'', JString (ar_severity res)),
        (''score'', JFloat (of_rat (ar_score res))),
        (''description'', JString (ar_description res))])]"

definition post_request :: "AnomalyResult \<Rightarrow> string \<Rightarrow> string \<Rightarrow> http_request" where
  "post_request res api_url token =
     \<lparr>req_url = api_url, req_body = anomaly_body res,
      req_headers = [''Content-Type: application/json'', ''X-Worker-Token: '' @ token],
      req_timeout = 5, req_nosignal = True\<rparr>"

text \<open>
  \<open>post_anomaly\<close>: the request is sent unless \<open>curl_easy_init\<close> fails; the result is
  \<open>rc == CURLE_OK && http_code == 201\<close>.
\<close>

definition post_anomaly ::
  "(http_request \<Rightarrow> curl_result) \<Rightarrow> AnomalyResult \<Rightarrow> string \<Rightarrow> string \<Rightarrow> bool \<times> effect list" where
  "post_anomaly net res api_url token =
     (let req = post_request res api_url token in
      case net req of
        CurlInitFailed \<Rightarrow> (False, [])
      | CurlPerformFailed _ \<Rightarrow> (False, [HttpPost req])
      | CurlCompleted code \<Rightarrow> (code = 201, [HttpPost req]))"

subsection \<open>Processing one message\<close>

text \<open>The three terminal outcomes of a task, as the specification names them.\<close>

datatype outcome = Acknowledge | AcknowledgeAfterParseFailure | LeaveUnacknowledged

text \<open>
  \<open>process_message\<close>: parse, extract and score; post when the score is positive and
  return without acknowledging when the post fails; otherwise \<open>XACK\<close>. A
  \<open>json::exception\<close> from \<open>json::parse\<close> or from \<open>extract_features\<close> is caught,
  logged and acknowledged.
\<close>

definition process_message ::
  "(string \<Rightarrow> json_error + json) \<Rightarrow> (http_request \<Rightarrow> curl_result) \<Rightarrow>
   string \<Rightarrow> string \<Rightarrow> string \<Rightarrow> string \<Rightarrow> string \<Rightarrow> string \<Rightarrow> outcome \<times> effect list" where
  "process_message parse net stream_id payload api_url worker_token stream_name consumer_group =
     (case bindE (parse payload) extract_features of
        Inl _ \<Rightarrow>
          (AcknowledgeAfterParseFailure,
           [LogErr (''[worker] JSON parse error for '' @ stream_id),
            Xack stream_name consumer_group stream_id])
      | Inr features \<Rightarrow>
          (let result = score features in
           if 0 < ar_score result then
             (let (ok, io) = post_anomaly net result api_url worker_token in
              if ok then (Acknowledge, io @ [Xack stream_name consumer_group stream_id])
              else (LeaveUnacknowledged,
                    io @ [LogErr (''[worker] POST failed for stream_id='' @ stream_id)]))
           else (Acknowledge, [Xack stream_name consumer_group stream_id])))"

fun is_xack :: "effect \<Rightarrow> bool" where
  "is_xack (Xack _ _ _) = True"
| "is_xack _ = False"

fun is_post :: "effect \<Rightarrow> bool" where
  "is_post (HttpPost _) = True"
| "is_post _ = False"

text \<open>
  The shape the sink expects of a body: an object \<open>anomaly\<close> with four string members,
  a severity among the four labels, and a numeric score in \<open>[0, 1]\<close>.
\<close>

definition severity_labels :: "string list" where
  "severity_labels = [''low'', ''medium'', ''high'', ''critical'']"

definition sink_body_ok :: "json \<Rightarrow> bool" where
  "sink_body_ok j =
     (case j of
        JObject [(''anomaly'', JObject
          [(''source_ip'', JString _), (''destination_ip'', JString _), (''protocol'', JString _),
           (''severity'', JString sev), (''score'', JFloat s), (''description'', JString _)])] \<Rightarrow>
          sev \<in> set severity_labels \<and> 0 \<le> s \<and> s \<le> 1
      | _ \<Rightarrow> False)"

subsection \<open>Lemmas\<close>

lemmas worker_defs = process_message_def post_anomaly_def Let_def

lemma process_message_parse_error:
  "bindE (parse payload) extract_features = Inl e \<Longrightarrow>
   process_message parse net sid payload url tok sn cg =
     (AcknowledgeAfterParseFailure, [LogErr (''[worker] JSON parse error for '' @ sid), Xack sn cg sid])"
  by (simp add: process_message_def)

lemma process_message_scored:
  "bindE (parse payload) extract_features = Inr f \<Longrightarrow>
   process_message parse net sid payload url tok sn cg =
     (if 0 < ar_score (score f) then
        (case net (post_request (score f) url tok) of
           CurlInitFailed \<Rightarrow> (LeaveUnacknowledged, [LogErr (''[worker] POST failed for stream_id='' @ sid)])
         | CurlPerformFailed _ \<Rightarrow> (LeaveUnacknowledged,
             [HttpPost (post_request (score f) url tok), LogErr (''[worker] POST failed for stream_id='' @ sid)])
         | CurlCompleted c \<Rightarrow>
             (if c = 201 then (Acknowledge, [HttpPost (post_request (score f) url tok), Xack sn cg sid])
              else (LeaveUnacknowledged,
                [HttpPost (post_request (score f) url tok), LogErr (''[worker] POST failed for stream_id='' @ sid)])))
      else (Acknowledge, [Xack sn cg sid]))"
  by (simp add: worker_defs split: curl_result.split)

lemma process_message_cases:
  assumes "process_message parse net sid payload url tok sn cg = (out, effs)"
  obtains (parse_fail) e where "bindE (parse payload) extract_features = Inl e"
      "out = AcknowledgeAfterParseFailure"
      "effs = [LogErr (''[worker] JSON parse error for '' @ sid), Xack sn cg sid]"
    | (benign) f where "bindE (parse payload) extract_features = Inr f" "ar_score (score f) = 0"
      "out = Acknowledge" "effs = [Xack sn cg sid]"
    | (posted) f where "bindE (parse payload) extract_features = Inr f" "0 < ar_score (score f)"
      "net (post_request (score f) url tok) = CurlCompleted 201"
      "out = Acknowledge" "effs = [HttpPost (post_request (score f) url tok), Xack sn cg sid]"
    | (failed) f where "bindE (parse payload) extract_features = Inr f" "0 < ar_score (score f)"
      "net (post_request (score f) url tok) \<noteq> CurlCompleted 201"
      "out = LeaveUnacknowledged" "\<not> list_ex is_xack effs"
proof (cases "bindE (parse payload) extract_features")
  case (Inl e)
  then show ?thesis using assms parse_fail process_message_parse_error by fastforce
next
  case (Inr f)
  note sc = process_message_scored [where parse = parse and payload = payload, OF Inr]
  have nn: "0 \<le> ar_score (score f)" by (rule ar_score_nonneg)
  show ?thesis
  proof (cases "0 < ar_score (score f)")
    case False
    then show ?thesis using assms benign [OF Inr] nn sc by auto
  next
    case True
    then show ?thesis using assms posted [OF Inr True] failed [OF Inr True] sc
      by (auto split: curl_result.splits if_splits)
  qed
qed

lemma severity_label_in: "severity_label s \<in> set severity_labels"
  by (simp add: severity_label_def severity_labels_def)

subsection \<open>Properties of one task\<close>

text \<open>
  C8: Exactly-once acknowledgement of a task: a task that ends in \<open>Acknowledge\<close> or
  \<open>AcknowledgeAfterParseFailure\<close> issues exactly one \<open>XACK\<close>, for its own stream
  entry on the configured stream and group; a task left unacknowledged issues none.
\<close>

theorem process_message_ack_once:
  "process_message parse net sid payload url tok sn cg = (out, effs) \<Longrightarrow>
   filter is_xack effs = (if out = LeaveUnacknowledged then [] else [Xack sn cg sid])"
  by (erule process_message_cases) (auto simp: list_ex_iff filter_empty_conv)

text \<open>
  C14: Ordering within one message: when a task acknowledges, the \<open>XACK\<close> is its last
  effect, so the sink request, when there is one, precedes it.
\<close>

theorem process_message_ack_last:
  "process_message parse net sid payload url tok sn cg = (out, effs) \<Longrightarrow> out \<noteq> LeaveUnacknowledged \<Longrightarrow>
   effs \<noteq> [] \<and> last effs = Xack sn cg sid"
  by (erule process_message_cases) auto

text \<open>
  C9: The outcome of a task: it leaves its message unacknowledged exactly when the payload
  parses into a packet whose score is positive and the sink does not complete the request
  with status 201 (curl could not start, the transfer failed, or another status came back).
\<close>

theorem process_message_leaves_pending_iff:
  "fst (process_message parse net sid payload url tok sn cg) = LeaveUnacknowledged \<longleftrightarrow>
   (\<exists>f. bindE (parse payload) extract_features = Inr f \<and> 0 < ar_score (score f) \<and>
        net (post_request (score f) url tok) \<noteq> CurlCompleted 201)"
proof (cases "process_message parse net sid payload url tok sn cg")
  case (Pair out effs)
  then show ?thesis
  proof (rule process_message_cases)
    fix f assume "bindE (parse payload) extract_features = Inr f" "0 < ar_score (score f)"
      "net (post_request (score f) url tok) = CurlCompleted 201" "out = Acknowledge"
    then show ?thesis using Pair by auto
  qed (use Pair in auto)
qed

text \<open>
  C15: Malformed input: when \<open>json::parse\<close> or \<open>extract_features\<close> throws, the
  task sends nothing to the sink and acknowledges the entry as a parse failure, so it is
  never redelivered.
\<close>

theorem process_message_malformed:
  "bindE (parse payload) extract_features = Inl e \<Longrightarrow>
   fst (process_message parse net sid payload url tok sn cg) = AcknowledgeAfterParseFailure \<and>
   \<not> list_ex is_post (snd (process_message parse net sid payload url tok sn cg))"
  by (simp add: process_message_parse_error)

text \<open>
  C25: The body sent to the sink for any scored packet has the shape the sink expects: the
  object \<open>anomaly\<close> with its six members, a severity among the four labels and a score
  in \<open>[0, 1]\<close>.
\<close>

theorem post_body_well_formed: "sink_body_ok (req_body (post_request (score f) url tok))"
proof -
  have "0 \<le> (of_rat (ar_score (score f)) :: real)" using ar_score_nonneg by simp
  moreover have "(of_rat (ar_score (score f)) :: real) \<le> 1"
    using ar_score_le_1 [of f] of_rat_less_eq [of "ar_score (score f)" 1] by simp
  ultimately show ?thesis
    by (simp add: post_request_def anomaly_body_def sink_body_ok_def ar_severity_score severity_label_in)
qed

subsection \<open>Witnesses\<close>

text \<open>A payload that is not JSON, and a packet whose TTL member is a string.\<close>

theorem process_message_ack_once_witness:
  "process_message (\<lambda>_. Inl ParseError) (\<lambda>_. CurlCompleted 201) ''1-0'' ''{'' ''u'' ''t'' ''s'' ''g'' =
     (AcknowledgeAfterParseFailure, [LogErr ''[worker] JSON parse error for 1-0'', Xack ''s'' ''g'' ''1-0'']) \<and>
   filter is_xack [LogErr ''[worker] JSON parse error for 1-0'', Xack ''s'' ''g'' ''1-0''] = [Xack ''s'' ''g'' ''1-0'']"
proof -
  have h: "process_message (\<lambda>_. Inl ParseError) (\<lambda>_. CurlCompleted 201) ''1-0'' ''{'' ''u'' ''t'' ''s'' ''g'' =
     (AcknowledgeAfterParseFailure, [LogErr ''[worker] JSON parse error for 1-0'', Xack ''s'' ''g'' ''1-0''])"
    by (simp add: process_message_def)
  show ?thesis using h process_message_ack_once [OF h] by simp
qed

theorem process_message_ack_last_witness:
  "process_message (\<lambda>_. Inl ParseError) (\<lambda>_. CurlCompleted 201) ''1-0'' ''{'' ''u'' ''t'' ''s'' ''g'' =
     (AcknowledgeAfterParseFailure, [LogErr ''[worker] JSON parse error for 1-0'', Xack ''s'' ''g'' ''1-0'']) \<and>
   AcknowledgeAfterParseFailure \<noteq> LeaveUnacknowledged \<and>
   last [LogErr ''[worker] JSON parse error for 1-0'', Xack ''s'' ''g'' ''1-0''] = Xack ''s'' ''g'' ''1-0''"
proof -
  have h: "process_message (\<lambda>_. Inl ParseError) (\<lambda>_. CurlCompleted 201) ''1-0'' ''{'' ''u'' ''t'' ''s'' ''g'' =
     (AcknowledgeAfterParseFailure, [LogErr ''[worker] JSON parse error for 1-0'', Xack ''s'' ''g'' ''1-0''])"
    by (simp add: process_message_def)
  show ?thesis using h process_message_ack_last [OF h] by simp
qed

theorem process_message_malformed_witness:
  "bindE (Inr (JObject [(''ttl'', JString ''x'')])) extract_features = Inl (TypeError 302) \<and>
   fst (process_message (\<lambda>_. Inr (JObject [(''ttl'', JString ''x'')])) (\<lambda>_. CurlCompleted 201)
          ''1-0'' ''p'' ''u'' ''t'' ''s'' ''g'') = AcknowledgeAfterParseFailure"
proof -
  have h: "bindE ((\<lambda>_. Inr (JObject [(''ttl'', JString ''x'')])) ''p'') extract_features
           = Inl (TypeError 302)"
    by (simp add: json_eval)
  show ?thesis
    using h process_message_malformed [where parse = "\<lambda>_. Inr (JObject [(''ttl'', JString ''x'')])"
        and payload = "''p''", OF h] by simp
qed

end
