(* ===== verification/StreamStore.thy ===== *)
theory StreamStore
  imports Prelude "HOL-Library.Product_Lexorder"
begin

text \<open>
  The stream store the worker consumes: one Redis stream with one consumer group, as the
  specification's protocol describes it (\<open>create-group-if-absent\<close>,
  \<open>reclaim-stale\<close>, \<open>read-new\<close>, \<open>acknowledge\<close>). The server is not part of the
  repository; this theory models the commands \<open>main.cpp\<close> sends through hiredis
  (\<open>XGROUP CREATE ... $ MKSTREAM\<close>, \<open>XAUTOCLAIM\<close>, \<open>XREADGROUP ... >\<close>,
  \<open>XACK\<close>) and the producer's \<open>XADD\<close>, with the reply shapes hiredis hands back.
  Entry identifiers are the pairs \<open>ms-seq\<close> of Redis, ordered lexicographically; the
  group keeps its last-delivered identifier and its pending-entries list (PEL) of
  delivered, unacknowledged entries with owner, delivery time and delivery count. The
  ghost field \<open>delivered\<close> logs the identifiers handed out by \<open>XREADGROUP >\<close>.
\<close>

datatype reply = RNil | RInt int | RStr string | RArr "reply list" | RErr string

type_synonym entry_id = "nat \<times> nat"
type_synonym fields = "(string \<times> string) list"

record pel_entry =
  pe_owner :: string
  pe_time :: nat
  pe_count :: nat

record store =
  entries :: "(entry_id \<times> fields) list"
  group_exists :: bool
  last_delivered :: entry_id
  pel :: "(entry_id \<times> pel_entry) list"
  clock :: nat
  delivered :: "entry_id list"

definition id_str :: "entry_id \<Rightarrow> string" where
  "id_str i = nat_to_string (fst i) @ ''-'' @ nat_to_string (snd i)"

definition parse_id :: "string \<Rightarrow> entry_id" where
  "parse_id s =
     (string_to_nat (takeWhile (\<lambda>c. c \<noteq> CHR ''-'') s),
      string_to_nat (drop 1 (dropWhile (\<lambda>c. c \<noteq> CHR ''-'') s)))"

definition entry_reply :: "entry_id \<times> fields \<Rightarrow> reply" where
  "entry_reply e = RArr [RStr (id_str (fst e)), RArr (concat (map (\<lambda>(k, v). [RStr k, RStr v]) (snd e)))]"

definition last_entry_id :: "(entry_id \<times> fields) list \<Rightarrow> entry_id" where
  "last_entry_id es = (if es = [] then (0, 0) else fst (last es))"

text \<open>\<open>XADD stream * field value ...\<close>: the new identifier is the current time with
  sequence 0, or the last identifier's sequence plus one when the clock has not passed it.\<close>

definition xadd :: "fields \<Rightarrow> store \<Rightarrow> reply \<times> store" where
  "xadd fs s =
     (let (ms, sq) = last_entry_id (entries s);
          i = (if ms < clock s then (clock s, 0) else (ms, Suc sq))
      in (RStr (id_str i), s\<lparr>entries := entries s @ [(i, fs)]\<rparr>))"

text \<open>\<open>XGROUP CREATE stream group $ MKSTREAM\<close>: a new group starts after the last entry;
  an existing group answers \<open>BUSYGROUP\<close> and is left as it is.\<close>

definition xgroup_create :: "store \<Rightarrow> reply \<times> store" where
  "xgroup_create s =
     (if group_exists s then (RErr ''BUSYGROUP Consumer Group name already exists'', s)
      else (RStr ''OK'', s\<lparr>group_exists := True, last_delivered := last_entry_id (entries s)\<rparr>))"

text \<open>
  \<open>XREADGROUP GROUP g consumer COUNT n BLOCK ms STREAMS stream >\<close>: the entries after
  the last-delivered identifier, at most \<open>n\<close> of them (a count of 0 is no limit, a
  negative count reads as 0); each becomes pending for the consumer. With nothing new the
  blocking read times out with a nil reply.
\<close>

definition xreadgroup :: "string \<Rightarrow> string \<Rightarrow> int \<Rightarrow> store \<Rightarrow> reply \<times> store" where
  "xreadgroup stream consumer n s =
     (let new = filter (\<lambda>e. last_delivered s < fst e) (entries s);
          batch = (if n \<le> 0 then new else take (nat n) new)
      in if \<not> group_exists s then (RErr ''NOGROUP'', s)
         else if batch = [] then (RNil, s)
         else (RArr [RArr [RStr stream, RArr (map entry_reply batch)]],
               s\<lparr>last_delivered := fst (last batch),
                 pel := pel s @ map (\<lambda>e. (fst e, \<lparr>pe_owner = consumer, pe_time = clock s, pe_count = 1\<rparr>)) batch,
                 delivered := delivered s @ map fst batch\<rparr>))"

text \<open>
  \<open>XAUTOCLAIM stream group consumer min-idle 0-0 COUNT n\<close>: the pending entries idle for
  at least \<open>min-idle\<close> milliseconds, at most \<open>n\<close>, change owner, have their idle time
  reset and their delivery count raised, and are returned; a count below 1 is an error.
\<close>

definition xautoclaim :: "string \<Rightarrow> nat \<Rightarrow> int \<Rightarrow> store \<Rightarrow> reply \<times> store" where
  "xautoclaim consumer min_idle n s =
     (if n < 1 then (RErr ''ERR COUNT must be > 0'', s)
      else if \<not> group_exists s then (RErr ''NOGROUP'', s)
      else
        (let claimed = map fst (take (nat n) (filter (\<lambda>e. min_idle \<le> clock s - pe_time (snd e)) (pel s)));
             bump = (\<lambda>e. if fst e \<in> set claimed
                          then (fst e, (snd e)\<lparr>pe_owner := consumer, pe_time := clock s,
                                               pe_count := Suc (pe_count (snd e))\<rparr>)
                          else e)
         in (RArr [RStr ''0-0'',
                   RArr (map (\<lambda>i. case map_of (entries s) i of Some fs \<Rightarrow> entry_reply (i, fs) | None \<Rightarrow> RNil) claimed),
                   RArr []],
             s\<lparr>pel := map bump (pel s)\<rparr>)))"

text \<open>\<open>XACK stream group id\<close>: removes a pending entry and answers how many it removed.\<close>

definition xack :: "entry_id \<Rightarrow> store \<Rightarrow> reply \<times> store" where
  "xack i s =
     (if i \<in> set (map fst (pel s)) then (RInt 1, s\<lparr>pel := filter (\<lambda>e. fst e \<noteq> i) (pel s)\<rparr>)
      else (RInt 0, s))"

text \<open>The commands, as one interface the consumer, the workers and the producer share.\<close>

datatype command =
    XAdd fields
  | XGroupCreate
  | XReadGroup string string int
  | XAutoClaim string nat int
  | XAck string
  | Tick nat

fun exec :: "command \<Rightarrow> store \<Rightarrow> reply \<times> store" where
  "exec (XAdd fs) s = xadd fs s"
| "exec XGroupCreate s = xgroup_create s"
| "exec (XReadGroup stream c n) s = xreadgroup stream c n s"
| "exec (XAutoClaim c idle n) s = xautoclaim c idle n s"
| "exec (XAck i) s = xack (parse_id i) s"
| "exec (Tick d) s = (RNil, s\<lparr>clock := clock s + d\<rparr>)"

definition store_empty :: store where
  "store_empty = \<lparr>entries = [], group_exists = False, last_delivered = (0, 0), pel = [], clock = 0, delivered = []\<rparr>"

text \<open>A sequence of commands, run in order from a store.\<close>

fun run_cmds :: "command list \<Rightarrow> store \<Rightarrow> reply list \<times> store" where
  "run_cmds [] s = ([], s)"
| "run_cmds (c # cs) s = (let (r, s') = exec c s; (rs, s'') = run_cmds cs s' in (r # rs, s''))"

definition demo_store :: store where
  "demo_store = snd (run_cmds [XGroupCreate, Tick 5, XAdd [(''payload'', ''{}'')]] store_empty)"

text \<open>
  The store's invariant: identifiers strictly increase along the stream; the identifiers
  delivered so far strictly increase and none is past the last-delivered one, which is
  not past the last entry; the PEL holds delivered identifiers, each once.
\<close>

definition store_inv :: "store \<Rightarrow> bool" where
  "store_inv s \<longleftrightarrow>
     sorted_wrt (<) (map fst (entries s)) \<and>
     sorted_wrt (<) (delivered s) \<and>
     (\<forall>i \<in> set (delivered s). i \<le> last_delivered s) \<and>
     last_delivered s \<le> last_entry_id (entries s) \<and>
     (\<not> group_exists s \<longrightarrow> delivered s = [] \<and> pel s = []) \<and>
     distinct (map fst (pel s)) \<and> set (map fst (pel s)) \<subseteq> set (delivered s)"

subsection \<open>Identifiers\<close>

lemma nat_to_string_no_dash: "CHR ''-'' \<notin> set (nat_to_string n)"
  using nat_to_string_digits [of n] by (auto simp: is_digit_def)

lemma parse_id_str: "parse_id (id_str i) = i"
proof -
  have nd: "\<forall>c \<in> set (nat_to_string (fst i)). c \<noteq> CHR ''-''" using nat_to_string_no_dash by blast
  then have "takeWhile (\<lambda>c. c \<noteq> CHR ''-'') (nat_to_string (fst i) @ ''-'' @ nat_to_string (snd i)) = nat_to_string (fst i)"
    by (simp add: takeWhile_append2)
  moreover have "dropWhile (\<lambda>c. c \<noteq> CHR ''-'') (nat_to_string (fst i) @ ''-'' @ nat_to_string (snd i)) = ''-'' @ nat_to_string (snd i)"
    using nd by (simp add: dropWhile_append2)
  ultimately show ?thesis by (simp add: parse_id_def id_str_def nat_to_string_roundtrip)
qed

lemma id_str_inj: "id_str i = id_str j \<longleftrightarrow> i = j"
  by (metis parse_id_str)

subsection \<open>Preservation of the invariant\<close>

lemma sorted_last_ge: "sorted_wrt (<) (map fst (es :: ('a :: linorder \<times> 'b) list)) \<Longrightarrow> x \<in> set es \<Longrightarrow> fst x \<le> fst (last es)"
proof (induction es)
  case (Cons a es)
  show ?case
  proof (cases "es = []")
    case True
    with Cons.prems show ?thesis by simp
  next
    case False
    have "fst a < fst (last es)" using Cons.prems(1) last_in_set [OF False] by auto
    with Cons False show ?thesis by (auto intro: less_imp_le)
  qed
qed simp

lemma sorted_fst_filter_take:
  "sorted_wrt (<) (map fst es) \<Longrightarrow> sorted_wrt (<) (map fst (take k (filter P es)))"
  "sorted_wrt (<) (map fst es) \<Longrightarrow> sorted_wrt (<) (map fst (filter P es))"
  by (simp_all add: sorted_wrt_map sorted_wrt_filter sorted_wrt_take)

lemma xadd_inv: "store_inv s \<Longrightarrow> store_inv (snd (xadd fs s))"
proof -
  assume inv: "store_inv s"
  obtain ms sq where l: "last_entry_id (entries s) = (ms, sq)" by fastforce
  define i where "i = (if ms < clock s then (clock s, 0) else (ms, Suc sq))"
  have gt: "last_entry_id (entries s) < i" using l by (auto simp: i_def)
  have le_last: "\<forall>e \<in> set (entries s). fst e \<le> last_entry_id (entries s)"
    using inv by (auto simp: store_inv_def last_entry_id_def intro: sorted_last_ge)
  have x: "xadd fs s = (RStr (id_str i), s\<lparr>entries := entries s @ [(i, fs)]\<rparr>)"
    using l by (simp add: xadd_def i_def Let_def)
  have "last_entry_id (entries s @ [(i, fs)]) = i" by (simp add: last_entry_id_def)
  then show ?thesis using inv gt le_last x
    by (auto simp: store_inv_def sorted_wrt_append intro: le_less_trans)
qed

lemma xgroup_create_inv: "store_inv s \<Longrightarrow> store_inv (snd (xgroup_create s))"
  by (simp add: store_inv_def xgroup_create_def)

lemma xack_inv: "store_inv s \<Longrightarrow> store_inv (snd (xack i s))"
  by (auto simp: store_inv_def xack_def distinct_map_filter)

lemma xautoclaim_pel_ids: "map fst (pel (snd (xautoclaim c idle n s))) = map fst (pel s)"
  by (simp add: xautoclaim_def Let_def comp_def)

lemma xautoclaim_same:
  "entries (snd (xautoclaim c idle n s)) = entries s \<and> delivered (snd (xautoclaim c idle n s)) = delivered s \<and>
   last_delivered (snd (xautoclaim c idle n s)) = last_delivered s"
  by (simp add: xautoclaim_def Let_def)

lemma store_inv_cong:
  "entries s' = entries s \<Longrightarrow> delivered s' = delivered s \<Longrightarrow> last_delivered s' = last_delivered s \<Longrightarrow>
   group_exists s' = group_exists s \<Longrightarrow> map fst (pel s') = map fst (pel s) \<Longrightarrow> store_inv s' = store_inv s"
  unfolding store_inv_def by (metis map_is_Nil_conv)

lemma xautoclaim_inv: "store_inv s \<Longrightarrow> store_inv (snd (xautoclaim c idle n s))"
  using store_inv_cong [OF _ _ _ _ xautoclaim_pel_ids] xautoclaim_same [of c idle n s]
  by (simp add: xautoclaim_def Let_def)

lemma xreadgroup_batch:
  assumes "store_inv s" "group_exists s"
    "batch = (if n \<le> 0 then filter (\<lambda>e. last_delivered s < fst e) (entries s)
              else take (nat n) (filter (\<lambda>e. last_delivered s < fst e) (entries s)))"
  shows "sorted_wrt (<) (map fst batch)" "\<forall>e \<in> set batch. last_delivered s < fst e"
    "\<forall>e \<in> set batch. fst e \<le> last_entry_id (entries s)"
proof -
  have se: "sorted_wrt (<) (map fst (entries s))" using assms(1) by (simp add: store_inv_def)
  have sub: "set batch \<subseteq> set (entries s)" using assms(3) by (auto dest: in_set_takeD)
  show "sorted_wrt (<) (map fst batch)" using assms(3) sorted_fst_filter_take [OF se] by simp
  show "\<forall>e \<in> set batch. last_delivered s < fst e" using assms(3) by (auto dest: in_set_takeD)
  show "\<forall>e \<in> set batch. fst e \<le> last_entry_id (entries s)"
    using sub sorted_last_ge [OF se] by (auto simp: last_entry_id_def)
qed

lemma xreadgroup_cases:
  assumes "xreadgroup st c n s = (r, s')"
  obtains "s' = s" "r = RNil \<or> r = RErr ''NOGROUP''"
  | batch where "group_exists s" "batch \<noteq> []"
      "batch = (if n \<le> 0 then filter (\<lambda>e. last_delivered s < fst e) (entries s)
                else take (nat n) (filter (\<lambda>e. last_delivered s < fst e) (entries s)))"
      "s' = s\<lparr>last_delivered := fst (last batch),
              pel := pel s @ map (\<lambda>e. (fst e, \<lparr>pe_owner = c, pe_time = clock s, pe_count = 1\<rparr>)) batch,
              delivered := delivered s @ map fst batch\<rparr>"
      "r = RArr [RArr [RStr st, RArr (map entry_reply batch)]]"
  using assms by (auto simp: xreadgroup_def Let_def split: if_splits)

lemma xreadgroup_inv: "store_inv s \<Longrightarrow> store_inv (snd (xreadgroup st c n s))"
proof -
  assume inv: "store_inv s"
  obtain r s' where rs: "xreadgroup st c n s = (r, s')" by fastforce
  then show ?thesis
  proof (cases rule: xreadgroup_cases)
    case 1
    with rs inv show ?thesis by simp
  next
    case (2 batch)
    note b = xreadgroup_batch [OF inv 2(1) 2(3)]
    have last_in: "last batch \<in> set batch" using 2(2) by simp
    have old: "\<forall>i \<in> set (delivered s). i < fst (last batch)"
      using inv b(2) last_in by (force simp: store_inv_def)
    have new_le: "\<forall>e \<in> set batch. fst e \<le> fst (last batch)"
      using sorted_last_ge [OF b(1)] by blast
    have pel_old: "\<forall>e \<in> set (pel s). \<forall>e' \<in> set batch. fst e \<noteq> fst e'"
      using inv b(2) by (force simp: store_inv_def)
    have disj: "fst ` set (pel s) \<inter> fst ` set batch = {}" using pel_old by fastforce
    have "distinct (map fst batch)" using b(1) by (simp add: strict_sorted_iff)
    then show ?thesis
      using inv rs 2(1) 2(4) b old new_le last_in disj
      by (auto simp: store_inv_def sorted_wrt_append comp_def intro: less_imp_le order.strict_trans1 order.strict_trans2)
  qed
qed

lemma exec_inv: "store_inv s \<Longrightarrow> store_inv (snd (exec cmd s))"
  by (cases cmd) (simp_all add: xadd_inv xgroup_create_inv xreadgroup_inv xautoclaim_inv xack_inv, simp add: store_inv_def)

lemma run_cmds_inv: "store_inv s \<Longrightarrow> store_inv (snd (run_cmds cmds s))"
proof (induction cmds arbitrary: s)
  case (Cons c cs)
  obtain r s1 where e: "exec c s = (r, s1)" by fastforce
  have "store_inv s1" using exec_inv [OF Cons.prems, of c] e by simp
  then have "store_inv (snd (run_cmds cs s1))" by (rule Cons.IH)
  then show ?case using e by (cases "run_cmds cs s1") simp
qed simp

lemma store_empty_inv: "store_inv store_empty"
  by (simp add: store_inv_def store_empty_def last_entry_id_def)

lemma xack_removes: "i \<notin> set (map fst (pel (snd (xack i s))))"
  by (auto simp: xack_def)

subsection \<open>Properties of the store\<close>

text \<open>
  Invariant of the store: from the empty store, after any sequence of commands
  (producer, group creation, reads, reclaims, acknowledgements, time), stream identifiers
  increase strictly, deliveries are logged in increasing order up to the last-delivered
  identifier, and the PEL holds each delivered identifier at most once.
\<close>

theorem store_inv_run: "store_inv (snd (run_cmds cmds store_empty))"
  by (rule run_cmds_inv [OF store_empty_inv])

text \<open>
  \<open>XREADGROUP >\<close> never hands out an entry twice: what one read delivers is
  appended to the delivery log, is disjoint from everything delivered before, and lies
  after the group's last-delivered identifier.
\<close>

theorem xreadgroup_fresh:
  "store_inv s \<Longrightarrow> xreadgroup st c n s = (r, s') \<Longrightarrow>
   \<exists>new. delivered s' = delivered s @ new \<and> set new \<inter> set (delivered s) = {} \<and>
         (\<forall>i \<in> set new. last_delivered s < i)"
proof (erule xreadgroup_cases)
  assume "s' = s"
  then show ?thesis by simp
next
  fix batch assume inv: "store_inv s" and b: "group_exists s"
    "batch = (if n \<le> 0 then filter (\<lambda>e. last_delivered s < fst e) (entries s)
              else take (nat n) (filter (\<lambda>e. last_delivered s < fst e) (entries s)))"
    and s': "s' = s\<lparr>last_delivered := fst (last batch),
              pel := pel s @ map (\<lambda>e. (fst e, \<lparr>pe_owner = c, pe_time = clock s, pe_count = 1\<rparr>)) batch,
              delivered := delivered s @ map fst batch\<rparr>"
  have gt: "\<forall>e \<in> set batch. last_delivered s < fst e" by (rule xreadgroup_batch(2) [OF inv b])
  moreover have "\<forall>i \<in> set (delivered s). i \<le> last_delivered s" using inv by (simp add: store_inv_def)
  ultimately have "set (map fst batch) \<inter> set (delivered s) = {}" by fastforce
  with gt s' show ?thesis by auto
qed

text \<open>
  Round trip of identifiers: the identifier string a reply carries, passed back in
  \<open>XACK\<close>, acknowledges exactly the entry it came from.
\<close>

theorem xack_reply_id: "exec (XAck (id_str i)) s = xack i s"
  by (simp add: parse_id_str)

text \<open>
  \<open>XAUTOCLAIM\<close> only changes owners, idle times and delivery counts: the pending
  identifiers, the delivery log and the last-delivered identifier stay as they were, so a
  reclaimed entry is never offered again by \<open>XREADGROUP >\<close>; only the reply of
  \<open>XAUTOCLAIM\<close> itself carries it.
\<close>

theorem xautoclaim_keeps_pending:
  "map fst (pel (snd (xautoclaim c idle n s))) = map fst (pel s) \<and>
   delivered (snd (xautoclaim c idle n s)) = delivered s \<and>
   last_delivered (snd (xautoclaim c idle n s)) = last_delivered s"
  using xautoclaim_pel_ids xautoclaim_same by blast

text \<open>
  \<open>XACK\<close> is idempotent: acknowledging an entry a second time answers 0 and changes
  nothing.
\<close>

theorem xack_twice:
  "fst (xack i (snd (xack i s))) = RInt 0 \<and> snd (xack i (snd (xack i s))) = snd (xack i s)"
proof -
  from xack_removes [of i s] show ?thesis by (simp add: xack_def [of i "snd (xack i s)"])
qed

subsection \<open>Witnesses\<close>

lemma demo_store_eq:
  "demo_store = \<lparr>entries = [((5, 0), [(''payload'', ''{}'')])], group_exists = True, last_delivered = (0, 0),
                 pel = [], clock = 5, delivered = []\<rparr>"
  by (simp add: demo_store_def store_empty_def xgroup_create_def xadd_def last_entry_id_def Let_def)

theorem xreadgroup_fresh_witness:
  "store_inv demo_store \<and>
   xreadgroup ''anomaly:raw'' ''worker-0'' 64 demo_store =
     (fst (xreadgroup ''anomaly:raw'' ''worker-0'' 64 demo_store), snd (xreadgroup ''anomaly:raw'' ''worker-0'' 64 demo_store)) \<and>
   delivered (snd (xreadgroup ''anomaly:raw'' ''worker-0'' 64 demo_store)) = [(5, 0)]"
proof -
  have inv: "store_inv demo_store" unfolding demo_store_def by (rule store_inv_run)
  have "delivered (snd (xreadgroup ''anomaly:raw'' ''worker-0'' 64 demo_store)) = [(5, 0)]"
    by (simp add: demo_store_eq xreadgroup_def)
  then show ?thesis
    using inv xreadgroup_fresh [OF inv, of "''anomaly:raw''" "''worker-0''" 64
        "fst (xreadgroup ''anomaly:raw'' ''worker-0'' 64 demo_store)"
        "snd (xreadgroup ''anomaly:raw'' ''worker-0'' 64 demo_store)"] by simp
qed

end
