(* ===== verification/Consumer.thy ===== *)
theory Consumer
  imports Worker StreamStore ThreadPool
begin

text \<open>
  \<open>main()\<close> of \<open>main.cpp\<close>: the configuration read from the environment, one
  iteration of the consumer loop (\<open>XAUTOCLAIM\<close> with its reply freed unread, the
  blocking \<open>XREADGROUP\<close>, the walk over the reply and one \<open>enqueue\<close> per entry with a
  non-empty \<open>payload\<close> field), and the whole process as a step relation in which the
  loop, the pool's threads running \<open>process_message\<close>, the producer and the clock
  interleave. A pool task is the pair (stream id, payload) that \<open>std::bind\<close> captures;
  the other bound arguments are the configuration, the same for every task.
\<close>

subsection \<open>Configuration\<close>

definition env :: "(string \<rightharpoonup> string) \<Rightarrow> string \<Rightarrow> string \<Rightarrow> string" where
  "env e key fallback = (case e key of Some v \<Rightarrow> v | None \<Rightarrow> fallback)"

text \<open>
  \<open>strtol(s, nullptr, 10)\<close> of glibc: leading white space, an optional sign, the longest
  run of decimal digits; the value saturates at the range of a 64-bit \<open>long\<close>.
  \<open>atol\<close> is \<open>strtol\<close>; \<open>atoi\<close> is \<open>(int) strtol\<close>, which keeps the low 32 bits.
\<close>

definition strtol_dec :: "string \<Rightarrow> int" where
  "strtol_dec s =
     (let t = dropWhile is_space s;
          (neg, u) = (case t of
                        c # r \<Rightarrow> if c = CHR ''-'' then (True, r) else if c = CHR ''+'' then (False, r) else (False, t)
                      | [] \<Rightarrow> (False, []));
          v = int (string_to_nat (takeWhile is_digit u));
          m = (if neg then - v else v)
      in max (- (2 ^ 63)) (min (2 ^ 63 - 1) m))"

definition atol :: "string \<Rightarrow> int" where
  "atol s = strtol_dec s"

definition atoi :: "string \<Rightarrow> c_int" where
  "atoi s = word_of_int (strtol_dec s)"

record config =
  cfg_redis_url :: string
  cfg_stream_name :: string
  cfg_consumer_group :: string
  cfg_consumer_name :: string
  cfg_api_url :: string
  cfg_worker_token :: string
  cfg_thread_count :: c_int
  cfg_batch_size :: int
  cfg_block_ms :: int

text \<open>
  The constants of \<open>main\<close>. \<open>hw\<close> is \<open>std::thread::hardware_concurrency()\<close>, an
  \<open>unsigned\<close> cast to \<open>int\<close>; \<open>std::max(1, x)\<close> is \<open>1 < x ? x : 1\<close> on signed
  integers.
\<close>

definition read_config :: "(string \<rightharpoonup> string) \<Rightarrow> u32 \<Rightarrow> config" where
  "read_config e hw =
     \<lparr>cfg_redis_url = env e ''REDIS_URL'' ''redis://localhost:6379'',
      cfg_stream_name = env e ''REDIS_STREAM'' ''anomaly:raw'',
      cfg_consumer_group = env e ''CONSUMER_GROUP'' ''analyzers'',
      cfg_consumer_name = env e ''CONSUMER_NAME'' ''worker-0'',
      cfg_api_url = env e ''RAILS_API_URL'' ''http://localhost:3000/api/v1/anomalies'',
      cfg_worker_token = env e ''WORKER_TOKEN'' ''dev-secret-change-me'',
      cfg_thread_count =
        (let a = atoi (env e ''THREAD_COUNT'' ''0'');
             x = (if a \<noteq> 0 then a else ucast hw)
         in if 1 < sint x then x else 1),
      cfg_batch_size = atol (env e ''BATCH_SIZE'' ''64''),
      cfg_block_ms = atol (env e ''BLOCK_MS'' ''500'')\<rparr>"

text \<open>\<open>ThreadPool pool(static_cast<std::size_t>(thread_count))\<close>.\<close>

definition pool_size :: "config \<Rightarrow> nat" where
  "pool_size cfg = nat (sint (cfg_thread_count cfg))"

subsection \<open>One iteration of the loop\<close>

text \<open>
  Reading a hiredis reply: \<open>elements\<close>/\<open>element[]\<close> of an array, \<open>str\<close> of a
  string. The code reads \<open>str\<close> only where Redis sends bulk strings, and always as a C
  string (\<open>std::string(const char*)\<close>, the comparison with \<open>"payload"\<close>): the text up
  to the first NUL byte, though a bulk string may hold NUL bytes.
\<close>

definition cstr :: "string \<Rightarrow> string" where
  "cstr s = takeWhile (\<lambda>c. c \<noteq> CHR 0x00) s"

definition reply_elements :: "reply \<Rightarrow> reply list" where
  "reply_elements r = (case r of RArr rs \<Rightarrow> rs | _ \<Rightarrow> [])"

definition reply_str :: "reply \<Rightarrow> string" where
  "reply_str r = (case r of RStr s \<Rightarrow> cstr s | _ \<Rightarrow> [])"

text \<open>The field loop \<open>for (j = 0; j + 1 < fields->elements; j += 2)\<close>, stopping at the first \<open>payload\<close>.\<close>

fun find_payload :: "reply list \<Rightarrow> string" where
  "find_payload (k # v # rest) = (if reply_str k = ''payload'' then reply_str v else find_payload rest)"
| "find_payload _ = []"

type_synonym task = "string \<times> string"

text \<open>The message loop: skip short entries and empty payloads, enqueue the others in order.\<close>

fun dispatch :: "reply list \<Rightarrow> task pool \<Rightarrow> pool_error + task pool" where
  "dispatch [] p = Inr p"
| "dispatch (msg # msgs) p =
     (if length (reply_elements msg) < 2 then dispatch msgs p
      else
        (let stream_id = reply_str (reply_elements msg ! 0);
             payload = find_payload (reply_elements (reply_elements msg ! 1))
         in if payload = [] then dispatch msgs p
            else bindE (enqueue (stream_id, payload) p) (dispatch msgs)))"

definition handle_read_reply :: "reply \<Rightarrow> task pool \<Rightarrow> pool_error + task pool" where
  "handle_read_reply r p =
     (case r of
        RArr (stream_entry # _) \<Rightarrow>
          (if 2 \<le> length (reply_elements stream_entry)
           then dispatch (reply_elements (reply_elements stream_entry ! 1)) p else Inr p)
      | _ \<Rightarrow> Inr p)"

text \<open>
  The body of \<open>while (!g_shutdown)\<close>. \<open>read_ok\<close> is false when hiredis returns a null
  reply (a connection error): the loop continues with the next iteration.
\<close>

definition consumer_cycle :: "config \<Rightarrow> bool \<Rightarrow> store \<Rightarrow> task pool \<Rightarrow> pool_error + store \<times> task pool" where
  "consumer_cycle cfg read_ok s p =
     (let s1 = snd (xautoclaim (cfg_consumer_name cfg) 30000 (cfg_batch_size cfg) s)
      in if \<not> read_ok then Inr (s1, p)
         else
           (let (r, s2) = xreadgroup (cfg_stream_name cfg) (cfg_consumer_name cfg) (cfg_batch_size cfg) s1
            in map_sum id (\<lambda>p'. (s2, p')) (handle_read_reply r p)))"

text \<open>
  What the message loop makes of one message, and of one stream entry's reply: the task
  it enqueues, if any.
\<close>

definition msg_task :: "reply \<Rightarrow> task option" where
  "msg_task msg =
     (if length (reply_elements msg) < 2 then None
      else (let payload = find_payload (reply_elements (reply_elements msg ! 1))
            in if payload = [] then None else Some (reply_str (reply_elements msg ! 0), payload)))"

definition field_payload :: "fields \<Rightarrow> string" where
  "field_payload fs = (case find (\<lambda>kv. cstr (fst kv) = ''payload'') fs of Some kv \<Rightarrow> cstr (snd kv) | None \<Rightarrow> [])"

definition entry_task :: "entry_id \<times> fields \<Rightarrow> task option" where
  "entry_task e = (if field_payload (snd e) = [] then None else Some (id_str (fst e), field_payload (snd e)))"

subsection \<open>The process\<close>

text \<open>The store commands a task's effects issue: \<open>XACK\<close> with the id string.\<close>

fun apply_effect :: "effect \<Rightarrow> store \<Rightarrow> store" where
  "apply_effect (Xack _ _ sid) s = snd (exec (XAck sid) s)"
| "apply_effect _ s = s"

definition apply_effects :: "effect list \<Rightarrow> store \<Rightarrow> store" where
  "apply_effects effs s = fold apply_effect effs s"

record system =
  sys_store :: store
  sys_pool :: "task pool"
  sys_running :: bool
  sys_outcomes :: "(string \<times> outcome) list"

text \<open>
  The steps of the process, for a configuration and the parser: an iteration of the loop;
  the signal that ends the loop and runs the pool's destructor; a thread taking a task;
  a thread finishing \<open>process_message\<close> on its task, with any answer of the network;
  the producer appending an entry; time passing.
\<close>

inductive sys_step :: "config \<Rightarrow> (string \<Rightarrow> json_error + json) \<Rightarrow> system \<Rightarrow> system \<Rightarrow> bool"
  for cfg parse where
  sys_loop: "sys_running S \<Longrightarrow> consumer_cycle cfg ok (sys_store S) (sys_pool S) = Inr (s', p') \<Longrightarrow>
    sys_step cfg parse S (S\<lparr>sys_store := s', sys_pool := p'\<rparr>)"
| sys_signal: "sys_running S \<Longrightarrow>
    sys_step cfg parse S (S\<lparr>sys_running := False, sys_pool := shutdown (sys_pool S)\<rparr>)"
| sys_wake: "worker_wake i (sys_pool S) = Some p' \<Longrightarrow> sys_step cfg parse S (S\<lparr>sys_pool := p'\<rparr>)"
| sys_done: "i < length (workers (sys_pool S)) \<Longrightarrow> workers (sys_pool S) ! i = Running (sid, payload) \<Longrightarrow>
    worker_done i (sys_pool S) = Some p' \<Longrightarrow>
    process_message parse (\<lambda>_. c) sid payload (cfg_api_url cfg) (cfg_worker_token cfg)
      (cfg_stream_name cfg) (cfg_consumer_group cfg) = (out, effs) \<Longrightarrow>
    sys_step cfg parse S (S\<lparr>sys_store := apply_effects effs (sys_store S), sys_pool := p',
                             sys_outcomes := sys_outcomes S @ [(sid, out)]\<rparr>)"
| sys_produce: "sys_step cfg parse S (S\<lparr>sys_store := snd (xadd fs (sys_store S))\<rparr>)"
| sys_tick: "sys_step cfg parse S (S\<lparr>sys_store := (sys_store S)\<lparr>clock := clock (sys_store S) + d\<rparr>\<rparr>)"

text \<open>
  Start-up: a store satisfying its invariant, \<open>XGROUP CREATE\<close>, the pool's constructor;
  then any sequence of steps.
\<close>

inductive sys_reachable :: "config \<Rightarrow> (string \<Rightarrow> json_error + json) \<Rightarrow> system \<Rightarrow> bool"
  for cfg parse where
  sys_init: "store_inv s0 \<Longrightarrow> pool_create (pool_size cfg) = Inr p \<Longrightarrow>
    sys_reachable cfg parse \<lparr>sys_store = snd (xgroup_create s0), sys_pool = p, sys_running = True, sys_outcomes = []\<rparr>"
| sys_next: "sys_reachable cfg parse S \<Longrightarrow> sys_step cfg parse S S' \<Longrightarrow> sys_reachable cfg parse S'"

text \<open>
  The identifiers a list of outcomes acknowledged, and the invariant of every reachable
  state of the process: the store's and the pool's own invariants; the loop runs exactly
  while the pool is not stopping; every dispatched stream id is the id string of a
  delivered entry, in delivery order; the outcomes are those of the finished tasks; and a
  dispatched entry is pending exactly when no outcome acknowledged it.
\<close>

definition acked_ids :: "(string \<times> outcome) list \<Rightarrow> string list" where
  "acked_ids os = map fst (filter (\<lambda>x. snd x \<noteq> LeaveUnacknowledged) os)"

definition sys_inv :: "system \<Rightarrow> bool" where
  "sys_inv S \<longleftrightarrow>
     store_inv (sys_store S) \<and> group_exists (sys_store S) \<and> pool_reachable (sys_pool S) \<and>
     (sys_running S \<longleftrightarrow> \<not> stop (sys_pool S)) \<and>
     subseq (map fst (submitted (sys_pool S))) (map id_str (delivered (sys_store S))) \<and>
     map fst (sys_outcomes S) = map fst (finished (sys_pool S)) \<and>
     set (acked_ids (sys_outcomes S)) \<subseteq> set (map fst (submitted (sys_pool S))) \<and>
     (\<forall>sid \<in> set (map fst (submitted (sys_pool S))).
        parse_id sid \<in> set (map fst (pel (sys_store S))) \<longleftrightarrow> sid \<notin> set (acked_ids (sys_outcomes S)))"

text \<open>The reference the message loop is compared with: filter the messages, then enqueue in order.\<close>

fun enqueue_list :: "task list \<Rightarrow> task pool \<Rightarrow> pool_error + task pool" where
  "enqueue_list [] p = Inr p"
| "enqueue_list (t # ts) p = bindE (enqueue t p) (enqueue_list ts)"

subsection \<open>Configuration and loop lemmas\<close>

lemma pool_size_bounds: "1 \<le> pool_size (read_config e hw) \<and> pool_size (read_config e hw) < 2 ^ 31"
proof -
  have "sint x < 2 ^ 31" for x :: c_int using sint_less [of x] by simp
  then show ?thesis by (auto simp: pool_size_def read_config_def Let_def nat_less_iff)
qed

lemma dispatch_Cons_None: "msg_task msg = None \<Longrightarrow> dispatch (msg # msgs) p = dispatch msgs p"
  by (auto simp: msg_task_def Let_def split: if_splits)

lemma dispatch_Cons_Some:
  "msg_task msg = Some t \<Longrightarrow> dispatch (msg # msgs) p = bindE (enqueue t p) (dispatch msgs)"
  by (auto simp: msg_task_def Let_def split: if_splits)

lemma dispatch_ref:
  "dispatch msgs p =
     (if stop p \<and> List.map_filter msg_task msgs \<noteq> [] then Inl PoolStopped
      else Inr (p\<lparr>tasks := tasks p @ List.map_filter msg_task msgs,
                  submitted := submitted p @ List.map_filter msg_task msgs\<rparr>))"
proof (induction msgs arbitrary: p)
  case Nil
  then show ?case by (simp add: map_filter_simps)
next
  case (Cons msg msgs)
  show ?case
  proof (cases "msg_task msg")
    case None
    then show ?thesis using Cons.IH [of p] by (simp add: dispatch_Cons_None map_filter_simps del: dispatch.simps(2))
  next
    case (Some t)
    then show ?thesis
      using Cons.IH [of "p\<lparr>tasks := tasks p @ [t], submitted := submitted p @ [t]\<rparr>"]
      by (simp add: dispatch_Cons_Some map_filter_simps enqueue_def del: dispatch.simps(2))
  qed
qed

lemma find_payload_fields:
  "find_payload (concat (map (\<lambda>(k, v). [RStr k, RStr v]) fs)) = field_payload fs"
  by (induction fs) (auto simp: field_payload_def reply_str_def)

lemma cstr_no_nul: "CHR 0x00 \<notin> set s \<Longrightarrow> cstr s = s"
  by (simp add: cstr_def takeWhile_eq_all_conv) blast

lemma id_str_no_nul: "CHR 0x00 \<notin> set (id_str i)"
  using nat_to_string_digits [of "fst i"] nat_to_string_digits [of "snd i"]
  by (auto simp: id_str_def is_digit_def)

lemma msg_task_entry: "msg_task (entry_reply e) = entry_task e"
  by (simp add: msg_task_def entry_task_def entry_reply_def reply_elements_def reply_str_def
      find_payload_fields cstr_no_nul [OF id_str_no_nul] Let_def)

lemma find_skip: "list_all (\<lambda>x. \<not> P x) pre \<Longrightarrow> find P (pre @ ys) = find P ys"
  by (induction pre) auto

subsection \<open>The invariant of the process\<close>

lemma map_filter_msg_entry:
  "List.map_filter msg_task (map entry_reply batch) = List.map_filter entry_task batch"
  by (induction batch) (auto simp: map_filter_simps msg_task_entry split: option.splits)

lemma xautoclaim_group: "group_exists (snd (xautoclaim c idle n s)) = group_exists s \<and> clock (snd (xautoclaim c idle n s)) = clock s"
  by (simp add: xautoclaim_def Let_def)

lemma handle_read_reply_nil: "r = RNil \<or> r = RErr e \<Longrightarrow> handle_read_reply r p = Inr p"
  by (auto simp: handle_read_reply_def)

lemma handle_read_reply_batch:
  "handle_read_reply (RArr [RArr [RStr st, RArr (map entry_reply batch)]]) p =
   dispatch (map entry_reply batch) p"
  by (simp add: handle_read_reply_def reply_elements_def)

lemma consumer_cycle_cases:
  assumes "consumer_cycle cfg ok s p = Inr (s', p')"
  obtains batch where
    "p' = p\<lparr>tasks := tasks p @ List.map_filter entry_task batch,
             submitted := submitted p @ List.map_filter entry_task batch\<rparr>"
    "delivered s' = delivered s @ map fst batch"
    "map fst (pel s') = map fst (pel s) @ map fst batch"
    "entries s' = entries s" "group_exists s' = group_exists s"
    "\<forall>e \<in> set batch. last_delivered s < fst e"
    "store_inv s \<Longrightarrow> store_inv s'"
proof -
  define s1 where "s1 = snd (xautoclaim (cfg_consumer_name cfg) 30000 (cfg_batch_size cfg) s)"
  have s1: "map fst (pel s1) = map fst (pel s)" "delivered s1 = delivered s" "last_delivered s1 = last_delivered s"
    "entries s1 = entries s" "group_exists s1 = group_exists s" "store_inv s \<Longrightarrow> store_inv s1"
    using xautoclaim_pel_ids xautoclaim_same xautoclaim_group xautoclaim_inv unfolding s1_def by blast+
  show ?thesis
  proof (cases ok)
    case False
    then have "s' = s1" "p' = p" using assms by (simp_all add: consumer_cycle_def s1_def Let_def)
    then show ?thesis using that [of "[]"] s1 by (simp add: map_filter_simps)
  next
    case True
    obtain r s2 where rs: "xreadgroup (cfg_stream_name cfg) (cfg_consumer_name cfg) (cfg_batch_size cfg) s1 = (r, s2)"
      by fastforce
    have hr: "map_sum id (\<lambda>p'. (s2, p')) (handle_read_reply r p) = Inr (s', p')"
      using assms True rs by (simp add: consumer_cycle_def s1_def Let_def)
    have inv2: "store_inv s \<Longrightarrow> store_inv s2"
      using xreadgroup_inv [of s1] rs s1(6) by (metis snd_conv)
    from rs show ?thesis
    proof (cases rule: xreadgroup_cases)
      case 1
      then have "s' = s1" "p' = p" using hr handle_read_reply_nil [of r] by auto
      then show ?thesis using that [of "[]"] s1 by (simp add: map_filter_simps)
    next
      case (2 batch)
      have "dispatch (map entry_reply batch) p = Inr p'" "s' = s2"
        using hr 2(5) handle_read_reply_batch by (auto simp: map_sum_def split: sum.splits)
      then have p': "p' = p\<lparr>tasks := tasks p @ List.map_filter entry_task batch,
             submitted := submitted p @ List.map_filter entry_task batch\<rparr>"
        by (simp add: dispatch_ref map_filter_msg_entry split: if_splits)
      have gt: "\<forall>e \<in> set batch. last_delivered s < fst e"
        using 2(3) s1(3) by (auto dest: in_set_takeD split: if_splits)
      show ?thesis
      proof (rule that [OF p'])
        show "delivered s' = delivered s @ map fst batch" using 2(4) \<open>s' = s2\<close> s1(2) by simp
        show "map fst (pel s') = map fst (pel s) @ map fst batch" using 2(4) \<open>s' = s2\<close> s1(1) by simp
        show "entries s' = entries s" using 2(4) \<open>s' = s2\<close> s1(4) by simp
        show "group_exists s' = group_exists s" using 2(4) \<open>s' = s2\<close> s1(5) by simp
        show "\<forall>e \<in> set batch. last_delivered s < fst e" by (rule gt)
        show "store_inv s \<Longrightarrow> store_inv s'" using inv2 \<open>s' = s2\<close> by simp
      qed
    qed
  qed
qed


lemma enqueue_all: "\<not> stop p \<Longrightarrow> pool_step\<^sup>*\<^sup>* p (p\<lparr>tasks := tasks p @ ts, submitted := submitted p @ ts\<rparr>)"
proof (induction ts arbitrary: p)
  case (Cons t ts)
  let ?p1 = "p\<lparr>tasks := tasks p @ [t], submitted := submitted p @ [t]\<rparr>"
  have "pool_step p ?p1" by (rule step_enqueue [of t]) (simp add: enqueue_def Cons.prems)
  moreover have "pool_step\<^sup>*\<^sup>* ?p1 (?p1\<lparr>tasks := tasks ?p1 @ ts, submitted := submitted ?p1 @ ts\<rparr>)"
    using Cons.prems by (intro Cons.IH) simp
  ultimately show ?case by (simp add: converse_rtranclp_into_rtranclp)
qed simp

lemma subseq_entry_tasks: "subseq (map fst (List.map_filter entry_task batch)) (map (id_str \<circ> fst) batch)"
  by (induction batch) (auto simp: map_filter_simps entry_task_def)

lemma entry_tasks_ids:
  "sid \<in> set (map fst (List.map_filter entry_task batch)) \<Longrightarrow> \<exists>e \<in> set batch. sid = id_str (fst e)"
  by (induction batch) (auto simp: map_filter_simps entry_task_def split: if_splits)

lemma no_xack_effects: "\<not> list_ex is_xack effs \<Longrightarrow> apply_effects effs s = s"
proof (induction effs)
  case (Cons e effs)
  then show ?case by (cases e) (simp_all add: apply_effects_def)
qed (simp add: apply_effects_def)

lemma process_message_store:
  assumes "process_message parse net sid payload url tok sn cg = (out, effs)"
  shows "apply_effects effs s = (if out = LeaveUnacknowledged then s else snd (xack (parse_id sid) s))"
  using assms
proof (cases rule: process_message_cases)
  case failed
  then show ?thesis using no_xack_effects [OF failed(5)] by simp
qed (simp_all add: apply_effects_def)

lemma subseq_set: "subseq xs ys \<Longrightarrow> set xs \<subseteq> set ys"
  by (induction rule: list_emb.induct) auto

lemma submitted_id:
  "subseq (map fst (submitted p)) (map id_str ds) \<Longrightarrow> sid \<in> set (map fst (submitted p)) \<Longrightarrow>
   sid = id_str (parse_id sid) \<and> parse_id sid \<in> set ds"
  using subseq_set [of "map fst (submitted p)" "map id_str ds"] by (auto simp: parse_id_str)

lemma running_submitted:
  "pool_inv p \<Longrightarrow> i < length (workers p) \<Longrightarrow> workers p ! i = Running t \<Longrightarrow> t \<in> set (submitted p)"
proof -
  assume inv: "pool_inv p" and i: "i < length (workers p)" "workers p ! i = Running t"
  have "t \<in> set (running_tasks (workers p))" using i by (metis nth_mem running_tasks_set)
  then have "t \<in> set (started p)" using inv by (simp add: pool_inv_def flip: set_mset_mset)
  moreover have "started p @ tasks p = submitted p" using inv by (simp add: pool_inv_def)
  ultimately show ?thesis by (metis Un_iff set_append)
qed

lemma wake_same: "worker_wake i p = Some p' \<Longrightarrow> submitted p' = submitted p \<and> finished p' = finished p \<and> stop p' = stop p"
  by (auto simp: worker_wake_def split: if_splits)

lemma done_same:
  "worker_done i p = Some p' \<Longrightarrow> workers p ! i = Running t \<Longrightarrow>
   submitted p' = submitted p \<and> finished p' = finished p @ [t] \<and> stop p' = stop p"
  by (auto simp: worker_done_def split: if_splits)

lemma xadd_same: "delivered (snd (xadd fs s)) = delivered s \<and> pel (snd (xadd fs s)) = pel s \<and>
  group_exists (snd (xadd fs s)) = group_exists s"
  by (simp add: xadd_def Let_def split: prod.splits)

lemma sys_inv_store:
  "sys_inv S \<Longrightarrow> store_inv s' \<Longrightarrow> group_exists s' = group_exists (sys_store S) \<Longrightarrow>
   delivered s' = delivered (sys_store S) \<Longrightarrow> pel s' = pel (sys_store S) \<Longrightarrow> sys_inv (S\<lparr>sys_store := s'\<rparr>)"
  by (simp add: sys_inv_def)

lemma sys_inv_pool:
  "sys_inv S \<Longrightarrow> pool_step (sys_pool S) p' \<Longrightarrow> submitted p' = submitted (sys_pool S) \<Longrightarrow>
   finished p' = finished (sys_pool S) \<Longrightarrow> stop p' = stop (sys_pool S) \<Longrightarrow> sys_inv (S\<lparr>sys_pool := p'\<rparr>)"
  by (auto simp: sys_inv_def intro: reach_step)

lemma sys_inv_signal:
  "sys_inv S \<Longrightarrow> sys_running S \<Longrightarrow> sys_inv (S\<lparr>sys_running := False, sys_pool := shutdown (sys_pool S)\<rparr>)"
proof -
  assume inv: "sys_inv S" and r: "sys_running S"
  then have "pool_step (sys_pool S) (shutdown (sys_pool S))" by (auto simp: sys_inv_def intro: step_shutdown)
  with inv show ?thesis by (auto simp: sys_inv_def shutdown_def intro: reach_step)
qed

lemma sys_inv_loop:
  assumes inv: "sys_inv S" and r: "sys_running S"
    and c: "consumer_cycle cfg ok (sys_store S) (sys_pool S) = Inr (s', p')"
  shows "sys_inv (S\<lparr>sys_store := s', sys_pool := p'\<rparr>)"
  using c
proof (cases rule: consumer_cycle_cases)
  case (1 batch)
  let ?s = "sys_store S" and ?p = "sys_pool S" and ?ts = "List.map_filter entry_task batch"
  have ns: "\<not> stop ?p" using inv r by (simp add: sys_inv_def)
  have sinv: "store_inv ?s" using inv by (simp add: sys_inv_def)
  have old: "\<forall>i \<in> set (delivered ?s). i \<notin> fst ` set batch"
    using sinv 1(6) by (force simp: store_inv_def)
  have sub: "subseq (map fst (submitted ?p)) (map id_str (delivered ?s))" using inv by (simp add: sys_inv_def)
  have reach: "pool_reachable p'"
    using inv enqueue_all [OF ns, of ?ts] 1(1) by (auto simp: sys_inv_def intro: reachable_star)
  have sub': "subseq (map fst (submitted p')) (map id_str (delivered s'))"
    using list_emb_append_mono [OF sub subseq_entry_tasks [of batch]] 1(1,2) by (simp add: comp_def)
  have new_sid: "parse_id sid \<in> fst ` set batch \<and> sid \<notin> set (map fst (submitted ?p))"
    if h: "sid \<in> set (map fst ?ts)" for sid
  proof -
    obtain e where e: "e \<in> set batch" "sid = id_str (fst e)"
      using entry_tasks_ids [OF h] by blast
    then have "sid \<notin> set (map fst (submitted ?p))" using submitted_id [OF sub] old by (metis image_eqI parse_id_str)
    with e show ?thesis by (auto simp: parse_id_str)
  qed
  have pel_iff: "parse_id sid \<in> set (map fst (pel s')) \<longleftrightarrow> sid \<notin> set (acked_ids (sys_outcomes S))"
    if "sid \<in> set (map fst (submitted p'))" for sid
  proof (cases "sid \<in> set (map fst (submitted ?p))")
    case True
    then have "parse_id sid \<in> set (delivered ?s)" using submitted_id [OF sub] by blast
    then have nb: "parse_id sid \<notin> fst ` set batch" using old by blast
    have "parse_id sid \<in> set (map fst (pel ?s)) \<longleftrightarrow> sid \<notin> set (acked_ids (sys_outcomes S))"
      using inv True unfolding sys_inv_def by blast
    moreover have "set (map fst (pel s')) = set (map fst (pel ?s)) \<union> fst ` set batch"
      using 1(3) by (metis set_append set_map)
    ultimately show ?thesis using nb by blast
  next
    case False
    then have "sid \<in> set (map fst ?ts)" using that 1(1) by simp
    then have "parse_id sid \<in> fst ` set batch" "sid \<notin> set (map fst (submitted ?p))" using new_sid by blast+
    moreover have "set (acked_ids (sys_outcomes S)) \<subseteq> set (map fst (submitted ?p))" using inv by (simp add: sys_inv_def)
    ultimately show ?thesis using 1(3) by (metis (no_types, lifting) UnI2 image_set set_append subsetD)
  qed
  show ?thesis
    using inv reach sub' pel_iff 1 by (auto simp: sys_inv_def)
qed

lemma sys_inv_done:
  assumes inv: "sys_inv S" and i: "i < length (workers (sys_pool S))"
    "workers (sys_pool S) ! i = Running (sid, payload)"
    and d: "worker_done i (sys_pool S) = Some p'"
    and pm: "process_message parse net sid payload url tok sn cg = (out, effs)"
  shows "sys_inv (S\<lparr>sys_store := apply_effects effs (sys_store S), sys_pool := p',
                     sys_outcomes := sys_outcomes S @ [(sid, out)]\<rparr>)"
proof -
  let ?s = "sys_store S" and ?p = "sys_pool S"
  have "pool_reachable ?p" using inv by (simp add: sys_inv_def)
  then have pinv: "pool_inv ?p" by (rule reachable_inv)
  have sub: "subseq (map fst (submitted ?p)) (map id_str (delivered ?s))" using inv by (simp add: sys_inv_def)
  have sid_in: "sid \<in> set (map fst (submitted ?p))"
    using running_submitted [OF pinv i] by force
  have same: "submitted p' = submitted ?p" "finished p' = finished ?p @ [(sid, payload)]" "stop p' = stop ?p"
    using done_same [OF d i(2)] by simp_all
  have reach: "pool_reachable p'" using inv d by (auto simp: sys_inv_def intro: reach_step step_done)
  have st: "apply_effects effs ?s = (if out = LeaveUnacknowledged then ?s else snd (xack (parse_id sid) ?s))"
    by (rule process_message_store [OF pm])
  have acked: "acked_ids (sys_outcomes S @ [(sid, out)]) =
               acked_ids (sys_outcomes S) @ (if out = LeaveUnacknowledged then [] else [sid])"
    by (simp add: acked_ids_def)
  have ne: "parse_id sid' \<noteq> parse_id sid" if "sid' \<in> set (map fst (submitted ?p))" "sid' \<noteq> sid" for sid'
    using submitted_id [OF sub that(1)] submitted_id [OF sub sid_in] that(2) by metis
  show ?thesis
  proof (cases "out = LeaveUnacknowledged")
    case True
    then show ?thesis using inv st acked same reach by (simp add: sys_inv_def)
  next
    case False
    have "store_inv (snd (xack (parse_id sid) ?s))" using inv xack_inv by (simp add: sys_inv_def)
    moreover have "group_exists (snd (xack (parse_id sid) ?s)) = group_exists ?s \<and>
                   delivered (snd (xack (parse_id sid) ?s)) = delivered ?s \<and>
                   set (map fst (pel (snd (xack (parse_id sid) ?s)))) = set (map fst (pel ?s)) - {parse_id sid}"
      by (auto simp: xack_def)
    ultimately show ?thesis using inv st acked same reach False sid_in ne
      by (auto simp: sys_inv_def)
  qed
qed

lemma sys_step_inv: "sys_step cfg parse S S' \<Longrightarrow> sys_inv S \<Longrightarrow> sys_inv S'"
proof (induction rule: sys_step.induct)
  case (sys_loop S ok s' p')
  then show ?case using sys_inv_loop by blast
next
  case (sys_signal S)
  then show ?case using sys_inv_signal by blast
next
  case (sys_wake i S p')
  then show ?case using wake_same [OF sys_wake(1)] by (auto intro: sys_inv_pool step_wake)
next
  case (sys_done i S sid payload p' c out effs)
  then show ?case using sys_inv_done by blast
next
  case (sys_produce S fs)
  then show ?case using xadd_same [of fs "sys_store S"] xadd_inv [of "sys_store S" fs]
    by (intro sys_inv_store) (simp_all add: sys_inv_def)
next
  case (sys_tick S d)
  then show ?case by (intro sys_inv_store) (simp_all add: sys_inv_def store_inv_def)
qed

lemma sys_init_inv:
  "store_inv s0 \<Longrightarrow> pool_create n = Inr p \<Longrightarrow>
   sys_inv \<lparr>sys_store = snd (xgroup_create s0), sys_pool = p, sys_running = True, sys_outcomes = []\<rparr>"
proof -
  assume s0: "store_inv s0" and p: "pool_create n = Inr p"
  have "store_inv (snd (xgroup_create s0))" using s0 by (rule xgroup_create_inv)
  moreover have "group_exists (snd (xgroup_create s0))" by (simp add: xgroup_create_def)
  moreover have "pool_reachable p" using p by (rule reach_create)
  ultimately show ?thesis using p by (auto simp: sys_inv_def acked_ids_def pool_create_def split: if_splits)
qed

lemma sys_reachable_inv: "sys_reachable cfg parse S \<Longrightarrow> sys_inv S"
  by (induction rule: sys_reachable.induct) (auto intro: sys_init_inv sys_step_inv)

lemma sys_reachable_star: "(sys_step cfg parse)\<^sup>*\<^sup>* S S' \<Longrightarrow> sys_reachable cfg parse S \<Longrightarrow> sys_reachable cfg parse S'"
  by (induction rule: rtranclp_induct) (auto intro: sys_next)

lemma distinct_count_list_1: "distinct xs \<Longrightarrow> x \<in> set xs \<Longrightarrow> count_list xs x = 1"
  by (induction xs) auto

lemma sys_submitted_distinct: "sys_inv S \<Longrightarrow> distinct (map fst (submitted (sys_pool S)))"
proof -
  assume inv: "sys_inv S"
  then have "sorted_wrt (<) (delivered (sys_store S))" by (simp add: sys_inv_def store_inv_def)
  then have "distinct (map id_str (delivered (sys_store S)))"
    by (simp add: strict_sorted_iff distinct_map inj_on_def id_str_inj)
  then show ?thesis using inv subseq_distinct by (auto simp: sys_inv_def)
qed

lemma sys_finished_distinct:
  "sys_inv S \<Longrightarrow> distinct (map fst (finished (sys_pool S))) \<and> set (finished (sys_pool S)) \<subseteq> set (submitted (sys_pool S))"
proof -
  assume inv: "sys_inv S"
  let ?p = "sys_pool S"
  have pinv: "pool_inv ?p" using inv reachable_inv by (auto simp: sys_inv_def)
  have st: "started ?p @ tasks ?p = submitted ?p" using pinv by (simp add: pool_inv_def)
  have "distinct (map fst (started ?p))" using sys_submitted_distinct [OF inv] st by (metis distinct_append map_append)
  moreover have le: "mset (finished ?p) \<subseteq># mset (started ?p)" using pinv by (simp add: pool_inv_def)
  then have "mset (map fst (finished ?p)) \<subseteq># mset (map fst (started ?p))" by (simp add: image_mset_subseteq_mono)
  ultimately have "distinct (map fst (finished ?p))" by (rule mset_le_distinct [rotated])
  moreover have "set (finished ?p) \<subseteq> set (started ?p)" using le by (metis mset_subset_eqD set_mset_mset subsetI)
  moreover have "set (started ?p) \<subseteq> set (submitted ?p)" using st by (metis set_append Un_upper1)
  ultimately show ?thesis by blast
qed

lemma pool_step_sys:
  assumes "pool_step (sys_pool S) p'" "stop (sys_pool S)"
  shows "\<exists>S'. sys_step cfg parse S S' \<and> sys_pool S' = p'"
  using assms(1)
proof (cases rule: pool_step.cases)
  case (step_enqueue t)
  then show ?thesis using assms(2) by (simp add: enqueue_def)
next
  case (step_wake i)
  then show ?thesis by (auto intro: sys_wake)
next
  case (step_done i)
  then obtain sid payload where i: "i < length (workers (sys_pool S))"
      "workers (sys_pool S) ! i = Running (sid, payload)"
    by (auto simp: worker_done_def split: if_splits wstate.splits)
  obtain out effs where "process_message parse (\<lambda>_. CurlInitFailed) sid payload (cfg_api_url cfg) (cfg_worker_token cfg)
      (cfg_stream_name cfg) (cfg_consumer_group cfg) = (out, effs)" by fastforce
  then show ?thesis using sys_done [OF i step_done] by fastforce
next
  case step_shutdown
  then show ?thesis using assms(2) by simp
qed

lemma pool_star_sys:
  "pool_step\<^sup>*\<^sup>* p p' \<Longrightarrow> stop p \<Longrightarrow> sys_pool S = p \<Longrightarrow>
   \<exists>S'. (sys_step cfg parse)\<^sup>*\<^sup>* S S' \<and> sys_pool S' = p'"
proof (induction rule: rtranclp_induct)
  case (step q p')
  then obtain S1 where S1: "(sys_step cfg parse)\<^sup>*\<^sup>* S S1" "sys_pool S1 = q" by blast
  have "stop q" using star_stopped [OF step(1) step(4)] by simp
  then obtain S2 where S2: "sys_step cfg parse S1 S2" "sys_pool S2 = p'" using pool_step_sys step(2) S1(2) by metis
  have "(sys_step cfg parse)\<^sup>*\<^sup>* S S2" using S1(1) S2(1) by (rule rtranclp.rtrancl_into_rtrancl)
  then show ?case using S2(2) by blast
qed auto

lemma enqueue_list_ref:
  "enqueue_list ts p =
     (if stop p \<and> ts \<noteq> [] then Inl PoolStopped
      else Inr (p\<lparr>tasks := tasks p @ ts, submitted := submitted p @ ts\<rparr>))"
  by (induction ts arbitrary: p) (auto simp: enqueue_def)

lemma handle_read_reply_Inr: "\<not> stop p \<Longrightarrow> \<exists>p'. handle_read_reply r p = Inr p'"
  by (auto simp: handle_read_reply_def dispatch_ref split: reply.splits list.splits)

lemma consumer_cycle_Inr: "\<not> stop p \<Longrightarrow> \<exists>s' p'. consumer_cycle cfg ok s p = Inr (s', p')"
proof -
  assume ns: "\<not> stop p"
  obtain r s2 where rs: "xreadgroup (cfg_stream_name cfg) (cfg_consumer_name cfg) (cfg_batch_size cfg)
      (snd (xautoclaim (cfg_consumer_name cfg) 30000 (cfg_batch_size cfg) s)) = (r, s2)" by fastforce
  obtain p' where "handle_read_reply r p = Inr p'" using handle_read_reply_Inr [OF ns] by blast
  then show ?thesis using rs by (auto simp: consumer_cycle_def Let_def)
qed

lemma sys_joined_outcomes:
  "sys_inv S \<Longrightarrow> joined (sys_pool S) \<Longrightarrow>
   mset (map fst (sys_outcomes S)) = mset (map fst (submitted (sys_pool S)))"
proof -
  assume inv: "sys_inv S" and j: "joined (sys_pool S)"
  have "pool_reachable (sys_pool S)" using inv by (simp add: sys_inv_def)
  then have "mset (finished (sys_pool S)) = mset (submitted (sys_pool S))" using drain_complete_aux j by blast
  moreover have "map fst (sys_outcomes S) = map fst (finished (sys_pool S))" using inv by (simp add: sys_inv_def)
  ultimately show ?thesis by (metis mset_map)
qed

lemma sys_drain:
  assumes r: "sys_reachable cfg parse S" and nr: "\<not> sys_running S"
  shows "\<exists>S'. (sys_step cfg parse)\<^sup>*\<^sup>* S S' \<and> joined (sys_pool S') \<and> \<not> sys_running S' \<and>
        submitted (sys_pool S') = submitted (sys_pool S) \<and> sys_reachable cfg parse S'"
proof -
  from r have inv: "sys_inv S" by (rule sys_reachable_inv)
  then have st: "stop (sys_pool S)" using nr by (simp add: sys_inv_def)
  obtain p' where p': "pool_step\<^sup>*\<^sup>* (sys_pool S) p'" "joined p'" using drain_reaches_joined [OF st] by blast
  obtain S' where S': "(sys_step cfg parse)\<^sup>*\<^sup>* S S'" "sys_pool S' = p'" using pool_star_sys [OF p'(1) st] by blast
  have r': "sys_reachable cfg parse S'" using sys_reachable_star [OF S'(1) r] .
  have "stop p' \<and> submitted p' = submitted (sys_pool S)" using star_stopped [OF p'(1) st] .
  moreover have "sys_inv S'" using r' by (rule sys_reachable_inv)
  ultimately show ?thesis using S' p'(2) r' by (auto simp: sys_inv_def)
qed

lemma apply_effects_delivered:
  "process_message parse net sid payload url tok sn cg = (out, effs) \<Longrightarrow>
   delivered (apply_effects effs s) = delivered s \<and> last_delivered (apply_effects effs s) = last_delivered s"
  by (drule process_message_store [where s = s]) (simp add: xack_def)

lemma sys_step_stopped:
  "sys_step cfg parse S S' \<Longrightarrow> \<not> sys_running S \<Longrightarrow>
   \<not> sys_running S' \<and> submitted (sys_pool S') = submitted (sys_pool S) \<and>
   delivered (sys_store S') = delivered (sys_store S) \<and> last_delivered (sys_store S') = last_delivered (sys_store S)"
proof (induction rule: sys_step.induct)
  case (sys_wake i S p')
  then show ?case using wake_same [OF sys_wake(1)] by simp
next
  case (sys_done i S sid payload p' c out effs)
  then show ?case using done_same [OF sys_done(3,2)] apply_effects_delivered [OF sys_done(4)] by simp
next
  case (sys_produce S fs)
  then show ?case by (simp add: xadd_def Let_def split: prod.splits)
qed simp_all

subsection \<open>Properties of the configuration and the loop\<close>

text \<open>
  C23: The thread count \<open>main\<close> computes from any environment and any hardware
  concurrency lies in \<open>[1, 2^31)\<close>, so the pool's constructor never throws
  \<open>std::invalid_argument\<close>: a zero, negative or unparsable \<open>THREAD_COUNT\<close>
  falls back to the hardware count and then to 1.
\<close>

theorem thread_count_valid:
  "1 \<le> pool_size (read_config e hw) \<and> pool_size (read_config e hw) < 2 ^ 31 \<and>
   (\<exists>p. pool_create (pool_size (read_config e hw)) = Inr p)"
  using pool_size_bounds [of e hw] by (simp add: pool_create_def)

text \<open>
  The message loop, which interleaves its skips (fewer than two elements, no or an
  empty \<open>payload\<close> field) with the enqueues, is equivalent to filtering the messages
  first and then enqueueing the remaining tasks in order.
\<close>

theorem dispatch_filter_enqueue: "dispatch msgs p = enqueue_list (List.map_filter msg_task msgs) p"
  by (simp add: dispatch_ref enqueue_list_ref)

text \<open>
  C11: One iteration of the loop on a running pool never throws and dispatches exactly the
  entries \<open>XREADGROUP >\<close> delivers, in stream order, each with a non-empty
  \<open>payload\<close> field as the task (id string, payload); delivered entries without a
  payload are dropped without being acknowledged. The entries \<open>XAUTOCLAIM\<close> reclaims
  are not among them.
\<close>

theorem consumer_cycle_dispatches:
  "\<not> stop p \<Longrightarrow> group_exists s \<Longrightarrow>
   batch = (if cfg_batch_size cfg \<le> 0 then filter (\<lambda>e. last_delivered s < fst e) (entries s)
            else take (nat (cfg_batch_size cfg)) (filter (\<lambda>e. last_delivered s < fst e) (entries s))) \<Longrightarrow>
   \<exists>s'. consumer_cycle cfg True s p =
       Inr (s', p\<lparr>tasks := tasks p @ List.map_filter entry_task batch,
                  submitted := submitted p @ List.map_filter entry_task batch\<rparr>) \<and>
     delivered s' = delivered s @ map fst batch"
proof -
  assume ns: "\<not> stop p" and g: "group_exists s" and b: "batch =
    (if cfg_batch_size cfg \<le> 0 then filter (\<lambda>e. last_delivered s < fst e) (entries s)
     else take (nat (cfg_batch_size cfg)) (filter (\<lambda>e. last_delivered s < fst e) (entries s)))"
  define s1 where "s1 = snd (xautoclaim (cfg_consumer_name cfg) 30000 (cfg_batch_size cfg) s)"
  have s1: "entries s1 = entries s" "last_delivered s1 = last_delivered s" "delivered s1 = delivered s"
    "group_exists s1"
    using xautoclaim_same xautoclaim_group g unfolding s1_def by simp_all
  obtain r s2 where rs: "xreadgroup (cfg_stream_name cfg) (cfg_consumer_name cfg) (cfg_batch_size cfg) s1 = (r, s2)"
    by fastforce
  have cc: "consumer_cycle cfg True s p = map_sum id (\<lambda>p'. (s2, p')) (handle_read_reply r p)"
    using rs by (simp add: consumer_cycle_def s1_def Let_def)
  from rs show ?thesis
  proof (cases rule: xreadgroup_cases)
    case 1
    have "batch = []"
    proof (rule ccontr)
      assume "batch \<noteq> []"
      then have "fst (xreadgroup (cfg_stream_name cfg) (cfg_consumer_name cfg) (cfg_batch_size cfg) s1) \<noteq> RNil \<and>
                 fst (xreadgroup (cfg_stream_name cfg) (cfg_consumer_name cfg) (cfg_batch_size cfg) s1) \<noteq> RErr ''NOGROUP''"
        using s1 b by (simp add: xreadgroup_def Let_def)
      then show False using rs 1(2) by auto
    qed
    then show ?thesis using cc 1 handle_read_reply_nil [of r] s1(3) by (auto simp: map_filter_simps)
  next
    case (2 batch')
    have "batch' = batch" using 2(3) s1 b by simp
    moreover have "dispatch (map entry_reply batch') p =
        Inr (p\<lparr>tasks := tasks p @ List.map_filter entry_task batch', submitted := submitted p @ List.map_filter entry_task batch'\<rparr>)"
      using ns by (simp add: dispatch_ref map_filter_msg_entry)
    ultimately show ?thesis using cc 2(4,5) handle_read_reply_batch s1(3) by simp
  qed
qed

text \<open>
  Examples of the thread count: \<open>THREAD_COUNT=4294967298\<close> is cut to the low 32
  bits by \<open>(int) strtol\<close> and gives 2 threads; \<open>" -3"\<close> gives 1; an unset
  variable gives the hardware concurrency.
\<close>

theorem thread_count_examples:
  "pool_size (read_config [''THREAD_COUNT'' \<mapsto> ''4294967298''] 8) = 2 \<and>
   pool_size (read_config [''THREAD_COUNT'' \<mapsto> '' -3''] 8) = 1 \<and>
   pool_size (read_config Map.empty 8) = 8"
  by (simp add: pool_size_def read_config_def env_def atoi_def strtol_dec_def is_space_def is_digit_def
      string_to_nat_def digit_val_def Let_def)

text \<open>
  C24: Round trip through the stream: for an entry stored with any fields, the walk over
  the \<open>XREADGROUP\<close> reply finds the first field named \<open>payload\<close>, skipping the
  fields before it, and recovers the entry's identifier (parsed back from the id string)
  and that field's value, when the value is non-empty and holds no NUL byte (the code
  reads it as a C string).
\<close>

theorem entry_payload_roundtrip:
  "CHR 0x00 \<notin> set pl \<Longrightarrow> pl \<noteq> [] \<Longrightarrow> list_all (\<lambda>kv. cstr (fst kv) \<noteq> ''payload'') pre \<Longrightarrow>
   map_option (\<lambda>(sid, x). (parse_id sid, x)) (msg_task (entry_reply (i, pre @ (''payload'', pl) # post))) =
     Some (i, pl)"
  by (simp add: msg_task_entry entry_task_def field_payload_def find_skip cstr_no_nul parse_id_str)

text \<open>
  C12: Invariant of the process: every reachable state satisfies \<open>sys_inv\<close> (store and
  pool invariants, loop running exactly while the pool is not stopping, dispatched ids
  are delivered ids in order, outcomes are those of finished tasks, and a dispatched
  entry is pending exactly when no outcome acknowledged it).
\<close>

theorem process_inv: "sys_reachable cfg parse S \<Longrightarrow> sys_inv S"
  by (rule sys_reachable_inv)

text \<open>A payload holding a NUL byte is cut there: \<open>"a\\0b"\<close> is dispatched as \<open>"a"\<close>.\<close>

lemma entry_payload_nul_truncated:
  "msg_task (entry_reply ((0, 1), [(''payload'', ''a'' @ [CHR 0x00] @ ''b'')])) = Some (id_str (0, 1), ''a'')"
  by (simp add: msg_task_entry entry_task_def field_payload_def cstr_def)

text \<open>
  C7: No poll cycle after shutdown: from a state where the signal has ended the loop,
  every sequence of steps keeps the loop stopped and dispatches nothing more: the
  submitted tasks, the identifiers \<open>XREADGROUP\<close> delivered and the group's
  last-delivered identifier stay as they are, while the threads finish their tasks.
\<close>

theorem no_dispatch_after_shutdown:
  "(sys_step cfg parse)\<^sup>*\<^sup>* S S' \<Longrightarrow> \<not> sys_running S \<Longrightarrow>
   \<not> sys_running S' \<and> submitted (sys_pool S') = submitted (sys_pool S) \<and>
   delivered (sys_store S') = delivered (sys_store S) \<and> last_delivered (sys_store S') = last_delivered (sys_store S)"
  by (induction rule: rtranclp_induct) (auto dest: sys_step_stopped)

end
