(* ===== verification/Program.thy ===== *)
theory Program
  imports Consumer
begin

text \<open>
  The whole of \<open>main()\<close> in \<open>main.cpp\<close>: the signal handlers installed first, the
  configuration, the start-up banner, \<open>curl_global_init\<close>, the two hiredis connections
  (\<open>redis_main\<close> for polling, \<open>redis_ack\<close> for the workers' \<open>XACK\<close>s) and the exit with
  status 1 when either fails, \<open>XGROUP CREATE\<close> and the pool; then the process of
  \<open>Consumer\<close> runs until the signal ends the loop and the pool's destructor has joined
  every thread; then the connections are freed and \<open>main\<close> returns 0. The main
  thread's own input and output (standard output and error, connections, \<open>curl\<close>'s
  global state) is a log of events; what the threads do to the store is in the
  process state.
\<close>

subsection \<open>Start-up and exit\<close>

text \<open>
  What \<open>redisConnectWithTimeout\<close> returns: a null pointer, a context whose \<open>err\<close> is
  set (with its \<open>errstr\<close>), or a connected context.
\<close>

datatype connection = ConnNull | ConnErr string | ConnOk

datatype io_event =
    Stdout string
  | Stderr string
  | CurlGlobalInit
  | CurlGlobalCleanup
  | Connect string nat nat
  | RedisFree string

text \<open>\<open>!ctx || ctx->err\<close>, and the text \<open>ctx && ctx->err ? ctx->errstr : ""\<close>.\<close>

definition conn_failed :: "connection \<Rightarrow> bool" where
  "conn_failed c \<longleftrightarrow> c \<noteq> ConnOk"

definition conn_errstr :: "connection \<Rightarrow> string" where
  "conn_errstr c = (case c of ConnErr s \<Rightarrow> s | _ \<Rightarrow> [])"

text \<open>The banner written to \<open>std::cout\<close>, one event per line.\<close>

definition startup_banner :: "config \<Rightarrow> string list" where
  "startup_banner cfg =
     [''[main] Starting C++ analyzer'',
      ''       threads='' @ int_to_string (sint (cfg_thread_count cfg)),
      ''       stream='' @ cfg_stream_name cfg,
      ''       group='' @ cfg_consumer_group cfg]"

text \<open>
  Banner, \<open>curl_global_init(CURL_GLOBAL_DEFAULT)\<close>, and the two connections with the
  timeout \<open>{1, 500000}\<close> (1.5 s, in microseconds). Host and port are literals: the
  configuration's \<open>redis_url\<close> takes no part.
\<close>

definition main_connect :: "config \<Rightarrow> io_event list" where
  "main_connect cfg =
     map Stdout (startup_banner cfg) @
     [CurlGlobalInit, Connect ''127.0.0.1'' 6379 1500000, Connect ''127.0.0.1'' 6379 1500000]"

text \<open>
  The line before the loop. The source file holds the ellipsis \<open>U+2026\<close> encoded twice
  in UTF-8 (the seven bytes below), and the program writes those bytes.
\<close>

definition entering_line :: string where
  "entering_line = ''[main] Entering main loop'' @ map char_of [0xC3, 0xA2, 0xE2, 0x82, 0xAC, 0xC2, 0xA6 :: nat]"

definition connect_error_line :: "connection \<Rightarrow> connection \<Rightarrow> string" where
  "connect_error_line cm ca = ''[main] Redis connection error: '' @ conn_errstr cm @ conn_errstr ca"

text \<open>After the pool's scope: the message, both \<open>redisFree\<close>, \<open>curl_global_cleanup\<close>.\<close>

definition exit_io :: "io_event list" where
  "exit_io =
     [Stdout ''[main] Shutdown signal received, draining pool...'', RedisFree ''redis_main'',
      RedisFree ''redis_ack'', CurlGlobalCleanup, Stdout ''[main] Clean exit.'']"

text \<open>
  The phases of \<open>main\<close>: before the connections (with the store as the server holds it),
  the loop and the pool running (the process state of \<open>Consumer\<close>), returned with a
  status after the loop, and returned with status 1 before it.
\<close>

datatype main_state = MStart store | MRun system | MExit int system | MFail int store

text \<open>
  One step of \<open>main\<close>, for an environment, a hardware concurrency, the parser and the
  results of the two connection attempts. A \<open>SIGTERM\<close> or \<open>SIGINT\<close> sets
  \<open>g_shutdown\<close> through \<open>handle_signal\<close>, installed before anything else; the loop
  observes it at the top of an iteration, which is the step \<open>sys_signal\<close> of the
  process; the pool's destructor then returns once every thread has returned.
\<close>

inductive main_step ::
  "(string \<rightharpoonup> string) \<Rightarrow> u32 \<Rightarrow> (string \<Rightarrow> json_error + json) \<Rightarrow> connection \<Rightarrow> connection \<Rightarrow>
   main_state \<times> io_event list \<Rightarrow> main_state \<times> io_event list \<Rightarrow> bool"
  for e hw parse cm ca where
  main_fail: "conn_failed cm \<or> conn_failed ca \<Longrightarrow>
    main_step e hw parse cm ca (MStart s, io)
      (MFail 1 s, io @ main_connect (read_config e hw) @ [Stderr (connect_error_line cm ca)])"
| main_start: "\<not> conn_failed cm \<Longrightarrow> \<not> conn_failed ca \<Longrightarrow>
    pool_create (pool_size (read_config e hw)) = Inr p \<Longrightarrow>
    main_step e hw parse cm ca (MStart s, io)
      (MRun \<lparr>sys_store = snd (xgroup_create s), sys_pool = p, sys_running = True, sys_outcomes = []\<rparr>,
       io @ main_connect (read_config e hw) @ [Stdout entering_line])"
| main_run: "sys_step (read_config e hw) parse S S' \<Longrightarrow>
    main_step e hw parse cm ca (MRun S, io) (MRun S', io)"
| main_exit: "\<not> sys_running S \<Longrightarrow> joined (sys_pool S) \<Longrightarrow>
    main_step e hw parse cm ca (MRun S, io) (MExit 0 S, io @ exit_io)"

inductive main_reachable ::
  "(string \<rightharpoonup> string) \<Rightarrow> u32 \<Rightarrow> (string \<Rightarrow> json_error + json) \<Rightarrow> connection \<Rightarrow> connection \<Rightarrow>
   main_state \<times> io_event list \<Rightarrow> bool"
  for e hw parse cm ca where
  main_init: "store_inv s \<Longrightarrow> main_reachable e hw parse cm ca (MStart s, [])"
| main_next: "main_reachable e hw parse cm ca P \<Longrightarrow> main_step e hw parse cm ca P P' \<Longrightarrow>
    main_reachable e hw parse cm ca P'"

text \<open>What holds of each phase of a reachable run.\<close>

fun main_inv :: "config \<Rightarrow> (string \<Rightarrow> json_error + json) \<Rightarrow> connection \<Rightarrow> connection \<Rightarrow>
    main_state \<times> io_event list \<Rightarrow> bool" where
  "main_inv cfg parse cm ca (MStart s, io) = (store_inv s \<and> io = [])"
| "main_inv cfg parse cm ca (MRun S, io) = (sys_reachable cfg parse S \<and> io = main_connect cfg @ [Stdout entering_line])"
| "main_inv cfg parse cm ca (MExit c S, io) = (c = 0 \<and> sys_reachable cfg parse S \<and> \<not> sys_running S \<and>
     joined (sys_pool S) \<and> io = main_connect cfg @ [Stdout entering_line] @ exit_io)"
| "main_inv cfg parse cm ca (MFail c s, io) = (c = 1 \<and> store_inv s \<and> (conn_failed cm \<or> conn_failed ca) \<and>
     io = main_connect cfg @ [Stderr (connect_error_line cm ca)])"

subsection \<open>Lemmas\<close>

inductive_cases main_step_StartE: "main_step e hw parse cm ca (MStart s, io) P'"
inductive_cases main_step_RunE: "main_step e hw parse cm ca (MRun S, io) P'"
inductive_cases main_step_ExitE: "main_step e hw parse cm ca (MExit c S, io) P'"
inductive_cases main_step_FailE: "main_step e hw parse cm ca (MFail c s, io) P'"

lemma main_step_inv:
  "main_step e hw parse cm ca P P' \<Longrightarrow> main_inv (read_config e hw) parse cm ca P \<Longrightarrow>
   main_inv (read_config e hw) parse cm ca P'"
proof (induction rule: main_step.induct)
  case (main_start p s io)
  then show ?case by (auto intro: sys_init)
next
  case (main_run S S' io)
  then show ?case by (auto intro: sys_next)
qed auto

lemma main_reachable_inv: "main_reachable e hw parse cm ca P \<Longrightarrow> main_inv (read_config e hw) parse cm ca P"
  by (induction rule: main_reachable.induct) (auto intro: main_step_inv)

lemma main_run_star:
  "(sys_step (read_config e hw) parse)\<^sup>*\<^sup>* S S' \<Longrightarrow>
   (main_step e hw parse cm ca)\<^sup>*\<^sup>* (MRun S, io) (MRun S', io)"
  by (induction rule: rtranclp_induct) (auto intro: rtranclp.rtrancl_into_rtrancl main_run)

subsection \<open>Properties of \<open>main\<close>\<close>

text \<open>
  C6: Store connectivity failure at start-up: when either connection attempt fails,
  \<open>main\<close>'s only step writes the banner, initialises curl, connects twice, reports
  the error on \<open>std::cerr\<close> and returns 1, before \<open>XGROUP CREATE\<close> (the store is
  untouched) and before the pool exists; nothing follows.
\<close>

theorem startup_connection_failure:
  "conn_failed cm \<or> conn_failed ca \<Longrightarrow>
   (main_step e hw parse cm ca (MStart s, io) P' \<longleftrightarrow>
      P' = (MFail 1 s, io @ main_connect (read_config e hw) @ [Stderr (connect_error_line cm ca)])) \<and>
   \<not> main_step e hw parse cm ca (MFail 1 s, io') P''"
  by (auto elim: main_step_StartE main_step_FailE intro: main_fail)

text \<open>
  C5: A run that returns from the loop returns 0, after the pool's destructor has joined
  every thread and every dispatched message has exactly one outcome; its whole output
  is the banner, the loop line and the shutdown lines, with both connections freed
  after the drain.
\<close>

theorem clean_exit_drained:
  "main_reachable e hw parse cm ca (MExit c S, io) \<Longrightarrow>
   c = 0 \<and> joined (sys_pool S) \<and>
   mset (map fst (sys_outcomes S)) = mset (map fst (submitted (sys_pool S))) \<and>
   io = main_connect (read_config e hw) @ [Stdout entering_line] @ exit_io"
proof -
  assume "main_reachable e hw parse cm ca (MExit c S, io)"
  then have i: "main_inv (read_config e hw) parse cm ca (MExit c S, io)" by (rule main_reachable_inv)
  then have "sys_inv S" by (auto intro: sys_reachable_inv)
  then show ?thesis using i sys_joined_outcomes by auto
qed

text \<open>
  C13: Graceful drain: from any reachable state of the loop after the signal, the
  threads can finish and \<open>main\<close> return 0 with one outcome for every dispatched
  message.
\<close>

theorem shutdown_exits:
  "main_reachable e hw parse cm ca (MRun S, io) \<Longrightarrow> \<not> sys_running S \<Longrightarrow>
   \<exists>S' io'. (main_step e hw parse cm ca)\<^sup>*\<^sup>* (MRun S, io) (MExit 0 S', io') \<and>
     mset (map fst (sys_outcomes S')) = mset (map fst (submitted (sys_pool S)))"
proof -
  assume r: "main_reachable e hw parse cm ca (MRun S, io)" and nr: "\<not> sys_running S"
  then have "sys_reachable (read_config e hw) parse S" using main_reachable_inv by fastforce
  then obtain S' where S': "(sys_step (read_config e hw) parse)\<^sup>*\<^sup>* S S'" "joined (sys_pool S')"
      "\<not> sys_running S'" "submitted (sys_pool S') = submitted (sys_pool S)" "sys_reachable (read_config e hw) parse S'"
    using sys_drain nr by blast
  have "(main_step e hw parse cm ca)\<^sup>*\<^sup>* (MRun S, io) (MExit 0 S', io @ exit_io)"
    using main_run_star [OF S'(1)] main_exit [OF S'(3,2)] by (rule rtranclp.rtrancl_into_rtrancl)
  moreover have "mset (map fst (sys_outcomes S')) = mset (map fst (submitted (sys_pool S')))"
    using S'(2,5) sys_joined_outcomes sys_reachable_inv by blast
  ultimately show ?thesis using S'(4) by auto
qed

end
