(* ===== verification/Spec2Isabelle.thy ===== *)
theory Spec2Isabelle
  imports PacketParser Entropy ThreadPool Features Ipv4Regex Worker StreamStore Consumer Program
begin

text \<open>
  Verification development of the anomaly-detection worker in
  \<open>src/external_workers/analyzer\<close>. The worker reads packet records from a Redis
  stream through a consumer group (\<open>main.cpp\<close>, \<open>main\<close>), hands each entry to a
  fixed pool of threads (\<open>thread_pool.h\<close>, \<open>ThreadPool\<close>), and each task parses
  the record, extracts its features and scores them (\<open>packet_parser.cpp\<close>,
  \<open>PacketParser\<close>), posts anomalies to an HTTP sink (\<open>post_anomaly\<close>) and
  acknowledges the entry (\<open>process_message\<close>).

  \<^bold>\<open>Theories.\<close>
  \<^item> \<open>Prelude\<close>: the result type \<open>error + 'a\<close> with \<open>bindE\<close> for code that throws,
    decimal rendering and parsing of numbers (\<open>std::to_string\<close>), word type names, and
    generic lemmas on lists and multisets.
  \<^item> \<open>Binary64\<close>: IEEE-754 binary64 round-to-nearest-even on rationals, so that
    \<open>double\<close> additions of the score are computed exactly as the hardware does.
  \<^item> \<open>PacketParser\<close>: \<open>PacketFeatures\<close>, \<open>AnomalyResult\<close>, the six rules of
    \<open>PacketParser::score\<close> in source order, the description and
    \<open>severity_label\<close>; the rule table of the specification as \<open>spec_score\<close>.
  \<^item> \<open>Entropy\<close>: \<open>compute_entropy\<close> with \<open>std::stoul\<close> semantics for each hex
    pair, the counting loop and the Shannon sum (on reals: \<open>log2\<close> is not rounded).
  \<^item> \<open>Features\<close>: \<open>extract_features\<close> over a model of the parsed JSON value
    (\<open>value\<close> with defaults, \<open>get<T>\<close> with \<open>type_error\<close> 302/306, the narrowing
    casts).
  \<^item> \<open>ThreadPool\<close>: the pool as an inductive step relation (\<open>enqueue\<close>, one
    \<open>worker_loop\<close> pass split at the lock into taking a task and finishing it, the
    destructor), with ghost logs of submitted, started and finished tasks.
  \<^item> \<open>Worker\<close>: \<open>post_anomaly\<close> at the libcurl boundary and \<open>process_message\<close>
    with its outcome and its effects (request, \<open>XACK\<close>, log lines) in order.
  \<^item> \<open>StreamStore\<close>: the Redis stream and consumer group (not in the repository,
    modelled from the specification's protocol): \<open>XADD\<close>, \<open>XGROUP CREATE\<close>,
    \<open>XREADGROUP >\<close>, \<open>XAUTOCLAIM\<close>, \<open>XACK\<close> as one command type with \<open>exec\<close>.
  \<^item> \<open>Consumer\<close>: the configuration of \<open>main\<close> (\<open>env\<close>, \<open>atoi\<close>/\<open>atol\<close>,
    the thread count), one iteration of the loop (\<open>consumer_cycle\<close>), and the process
    as the step relation \<open>sys_step\<close>: loop iterations, the signal that ends the loop
    and starts the pool's destructor, threads taking and finishing tasks (a finished
    task applies its \<open>XACK\<close> to the store), the producer and the clock, interleaved
    arbitrarily; \<open>sys_reachable\<close> starts from any store satisfying its invariant.
  \<^item> \<open>Ipv4Regex\<close>: the \<open>std::regex IPV4_RE\<close> of \<open>packet_parser.cpp\<close> as a regular
    expression over bracket classes, its anchored-match language, a derivative matcher
    proved equal to it, and a dotted-quad reference; the regex is declared and unused.
  \<^item> \<open>Program\<close>: \<open>main()\<close> as the step relation \<open>main_step\<close> over its phases: banner,
    \<open>curl_global_init\<close>, the two connections and the return of 1 when either fails,
    \<open>XGROUP CREATE\<close> and the pool, the process of \<open>Consumer\<close>, and after the pool's
    joins the shutdown lines, \<open>redisFree\<close> of both contexts and the return of 0; the
    main thread's output is a log of events.
  \<^item> This theory: the properties of the whole process and a concrete run of \<open>main\<close>
    (from the environment \<open>demo_env\<close> to the return of 0).

  \<^bold>\<open>What is shown.\<close> Scoring: the severity equals the rule table's except at one
  binary64 boundary (0.7499999999999999), score bounds, positivity iff a rule fires,
  the specification's scenarios. Entropy: round trip of hex encoding, the counting loop
  against a reference, exact values 8 and 0, non-negativity, the partial-pair behaviour of
  \<open>std::stoul\<close>. Extraction: the only exceptions, the benign empty record, wrap-around
  of ports and TTL, the defaults of absent members, type errors of present members,
  addresses kept unvalidated. Pattern: \<open>IPV4_RE\<close> accepts exactly the dotted quads. Pool: invariant, no task lost or run twice at the join, termination
  of the drain by a measure, the destructor's liveness, enqueue after stop. Worker:
  exactly one acknowledgement and its position after the request, the outcome
  characterisation, malformed input, the shape of the posted body. Store: its invariant
  over any command sequence, fresh deliveries, \<open>XAUTOCLAIM\<close> keeping the pending set,
  idempotent \<open>XACK\<close>, the id round trip. Loop: the thread count is valid, the message
  loop's field walk recovers the first \<open>payload\<close> field (read as a C string), one
  iteration dispatches exactly the entries \<open>XREADGROUP >\<close> delivers that carry a payload. Process (this theory): no entry dispatched twice, no id acknowledged twice,
  a message whose post failed stays pending and is never dispatched again (the
  \<open>XAUTOCLAIM\<close> reply is discarded), and after the signal every dispatched message
  gets exactly one outcome; after the signal no poll cycle runs. Program: a failed
  connection returns 1 before anything reaches the store; \<open>main\<close> returns only with 0,
  after the joins, every dispatched message with one outcome and both connections freed
  after the drain; and from any state after the signal such a return is reachable.

  \<^bold>\<open>Bounds and fuel.\<close> No fuel is used: every loop of the code is structural
  recursion; the pool's drain is proved to terminate by the measure \<open>drain_measure\<close>.
  Integers keep their C widths (\<open>uint8_t\<close>, \<open>uint16_t\<close>, \<open>uint32_t\<close>, \<open>int\<close> as
  words); \<open>long\<close> values from \<open>atol\<close> are saturated at 64 bits.

  \<^bold>\<open>Not modelled.\<close> \<open>json::parse\<close> (a parameter returning a value or a parse
  error) and \<open>json::dump\<close>; the network (a function from the request to curl's
  result); hiredis connection internals (a connection attempt is one of its three
  results), timeouts and \<open>BLOCK\<close> waiting; the log lines of the worker threads go to the
  effects of a task, not to an interleaved stream; a signal arriving before
  \<open>std::signal\<close> is installed (the default action ends the process); memory management
  (\<open>freeReplyObject\<close>, the unfreed \<open>XACK\<close> replies); a failed \<open>XACK\<close> on
  \<open>redis_ack\<close> (the model's \<open>XACK\<close> always reaches the store); failure to create a thread
  in the pool's constructor; consumers other than this one in the group; the floating-point rounding of
  \<open>log2\<close> and of the entropy sum; thread scheduling beyond the interleaving of whole
  steps (each mutex-protected block is one step).
\<close>

subsection \<open>A run of the process\<close>

text \<open>
  One worker thread; the producer appends one entry whose payload parses to a packet for
  the suspicious port 4444; the loop dispatches it; the thread runs
  \<open>process_message\<close>, whose post fails; thirty seconds pass; the next iteration's
  \<open>XAUTOCLAIM\<close> reclaims the entry; the signal ends the loop.
\<close>

definition demo_cfg :: config where
  "demo_cfg = \<lparr>cfg_redis_url = ''redis://localhost:6379'', cfg_stream_name = ''anomaly:raw'',
     cfg_consumer_group = ''analyzers'', cfg_consumer_name = ''worker-0'',
     cfg_api_url = ''http://localhost:3000/api/v1/anomalies'', cfg_worker_token = ''t'',
     cfg_thread_count = 1, cfg_batch_size = 64, cfg_block_ms = 500\<rparr>"

definition demo_parse :: "string \<Rightarrow> json_error + json" where
  "demo_parse s = Inr (JObject [(''dst_port'', JInt 4444)])"

definition demo_task :: task where
  "demo_task = (id_str (0, 1), ''p'')"

definition demo_store1 :: store where
  "demo_store1 = \<lparr>entries = [((0, 1), [(''payload'', ''p'')])], group_exists = True,
     last_delivered = (0, 0), pel = [], clock = 0, delivered = []\<rparr>"

definition demo_store2 :: store where
  "demo_store2 = demo_store1\<lparr>last_delivered := (0, 1),
     pel := [((0, 1), \<lparr>pe_owner = ''worker-0'', pe_time = 0, pe_count = 1\<rparr>)], delivered := [(0, 1)]\<rparr>"

definition demo_pool2 :: "task pool" where
  "demo_pool2 = \<lparr>tasks = [demo_task], stop = False, workers = [Idle], submitted = [demo_task], started = [], finished = []\<rparr>"

definition demo_feat :: PacketFeatures where
  "demo_feat = features_default\<lparr>source_ip := ''0.0.0.0'', destination_ip := ''0.0.0.0'', protocol := ''UNKNOWN'',
     dst_port := 4444\<rparr>"

definition demo_S0 :: system where
  "demo_S0 = \<lparr>sys_store = snd (xgroup_create store_empty),
     sys_pool = \<lparr>tasks = [], stop = False, workers = [Idle], submitted = [], started = [], finished = []\<rparr>,
     sys_running = True, sys_outcomes = []\<rparr>"

definition demo_S1 :: system where "demo_S1 = demo_S0\<lparr>sys_store := demo_store1\<rparr>"
definition demo_S2 :: system where "demo_S2 = demo_S1\<lparr>sys_store := demo_store2, sys_pool := demo_pool2\<rparr>"
definition demo_S3 :: system where
  "demo_S3 = demo_S2\<lparr>sys_pool := demo_pool2\<lparr>tasks := [], workers := [Running demo_task], started := [demo_task]\<rparr>\<rparr>"
definition demo_S4 :: system where
  "demo_S4 = demo_S3\<lparr>sys_pool := demo_pool2\<lparr>tasks := [], started := [demo_task], finished := [demo_task]\<rparr>,
     sys_outcomes := [(id_str (0, 1), LeaveUnacknowledged)]\<rparr>"
definition demo_S5 :: system where
  "demo_S5 = demo_S4\<lparr>sys_store := demo_store2\<lparr>clock := 30000\<rparr>\<rparr>"
definition demo_S6 :: system where
  "demo_S6 = demo_S5\<lparr>sys_store := demo_store2\<lparr>clock := 30000,
     pel := [((0, 1), \<lparr>pe_owner = ''worker-0'', pe_time = 30000, pe_count = 2\<rparr>)]\<rparr>\<rparr>"
definition demo_S7 :: system where
  "demo_S7 = demo_S6\<lparr>sys_running := False, sys_pool := shutdown (sys_pool demo_S6)\<rparr>"

definition demo_S8 :: system where
  "demo_S8 = demo_S7\<lparr>sys_pool := (sys_pool demo_S7)\<lparr>workers := [Exited]\<rparr>\<rparr>"

text \<open>The environment whose configuration is \<open>demo_cfg\<close>, and \<open>main\<close>'s output up to the loop.\<close>

definition demo_env :: "string \<rightharpoonup> string" where
  "demo_env = [''WORKER_TOKEN'' \<mapsto> ''t'', ''THREAD_COUNT'' \<mapsto> ''1'']"

definition demo_io :: "io_event list" where
  "demo_io = main_connect demo_cfg @ [Stdout entering_line]"

lemmas demo_sys_defs = demo_S0_def demo_S1_def demo_S2_def demo_S3_def demo_S4_def demo_S5_def demo_S6_def
  demo_S7_def demo_S8_def demo_store1_def demo_store2_def demo_pool2_def demo_cfg_def

subsection \<open>Lemmas of the run\<close>

lemma run_reach0: "sys_reachable demo_cfg demo_parse demo_S0"
proof -
  have "pool_create (pool_size demo_cfg) = Inr (sys_pool demo_S0)"
    by (simp add: pool_create_def pool_size_def demo_sys_defs)
  moreover have "store_inv store_empty" by (simp add: store_inv_def store_empty_def last_entry_id_def)
  ultimately show ?thesis unfolding demo_S0_def by (auto intro: sys_init)
qed

lemma run_step1: "sys_step demo_cfg demo_parse demo_S0 demo_S1"
proof -
  have eq: "demo_S1 = demo_S0\<lparr>sys_store := snd (xadd [(''payload'', ''p'')] (sys_store demo_S0))\<rparr>"
    by (simp add: demo_sys_defs xadd_def xgroup_create_def store_empty_def last_entry_id_def Let_def)
  show ?thesis unfolding eq by (rule sys_produce)
qed

lemma run_step2: "sys_step demo_cfg demo_parse demo_S1 demo_S2"
proof -
  have "consumer_cycle demo_cfg True (sys_store demo_S1) (sys_pool demo_S1) = Inr (demo_store2, demo_pool2)"
    by (simp add: demo_sys_defs demo_task_def consumer_cycle_def xautoclaim_def xreadgroup_def handle_read_reply_def
        entry_reply_def reply_elements_def reply_str_def cstr_no_nul id_str_no_nul enqueue_def Let_def)
  moreover have "sys_running demo_S1" by (simp add: demo_sys_defs)
  ultimately show ?thesis unfolding demo_S2_def by (rule sys_loop [rotated])
qed

lemma run_step3: "sys_step demo_cfg demo_parse demo_S2 demo_S3"
proof -
  have "worker_wake 0 (sys_pool demo_S2) = Some (demo_pool2\<lparr>tasks := [], workers := [Running demo_task], started := [demo_task]\<rparr>)"
    by (simp add: worker_wake_def demo_sys_defs)
  then show ?thesis unfolding demo_S3_def by (rule sys_wake)
qed

lemma demo_extract: "bindE (demo_parse ''p'') extract_features = Inr demo_feat"
  by (simp add: demo_parse_def demo_feat_def json_eval)

lemma demo_score_pos: "0 < ar_score (score demo_feat)"
proof -
  have fl: "rule_flags demo_feat = [True, False, False, False, False, False]"
    by (simp add: rule_flags_def rules_eval demo_feat_def)
  show ?thesis unfolding ar_score_flags fl by (subst flags_positive) simp
qed

lemma run_step4: "sys_step demo_cfg demo_parse demo_S3 demo_S4"
proof -
  let ?req = "post_request (score demo_feat) (cfg_api_url demo_cfg) (cfg_worker_token demo_cfg)"
  let ?effs = "[HttpPost ?req, LogErr (''[worker] POST failed for stream_id='' @ id_str (0, 1))]"
  have pm: "process_message demo_parse (\<lambda>_. CurlPerformFailed 7) (id_str (0, 1)) ''p'' (cfg_api_url demo_cfg)
      (cfg_worker_token demo_cfg) (cfg_stream_name demo_cfg) (cfg_consumer_group demo_cfg) = (LeaveUnacknowledged, ?effs)"
    using process_message_scored [where parse = demo_parse and payload = "''p''", OF demo_extract] demo_score_pos
    by simp
  have w: "0 < length (workers (sys_pool demo_S3))" "workers (sys_pool demo_S3) ! 0 = Running (id_str (0, 1), ''p'')"
    by (simp_all add: demo_sys_defs demo_task_def)
  have d: "worker_done 0 (sys_pool demo_S3) = Some (demo_pool2\<lparr>tasks := [], started := [demo_task], finished := [demo_task]\<rparr>)"
    by (simp add: worker_done_def demo_sys_defs demo_task_def)
  have "demo_S4 = demo_S3\<lparr>sys_store := apply_effects ?effs (sys_store demo_S3),
      sys_pool := demo_pool2\<lparr>tasks := [], started := [demo_task], finished := [demo_task]\<rparr>,
      sys_outcomes := sys_outcomes demo_S3 @ [(id_str (0, 1), LeaveUnacknowledged)]\<rparr>"
    by (simp add: demo_sys_defs apply_effects_def)
  then show ?thesis using sys_done [OF w d pm] by simp
qed

lemma run_step5: "sys_step demo_cfg demo_parse demo_S4 demo_S5"
proof -
  have eq: "demo_S5 = demo_S4\<lparr>sys_store := (sys_store demo_S4)\<lparr>clock := clock (sys_store demo_S4) + 30000\<rparr>\<rparr>"
    by (simp add: demo_sys_defs)
  show ?thesis unfolding eq by (rule sys_tick)
qed

lemma run_step6: "sys_step demo_cfg demo_parse demo_S5 demo_S6"
proof -
  have "consumer_cycle demo_cfg True (sys_store demo_S5) (sys_pool demo_S5) = Inr (sys_store demo_S6, sys_pool demo_S5)"
    by (simp add: demo_sys_defs consumer_cycle_def xautoclaim_def xreadgroup_def handle_read_reply_def Let_def)
  moreover have "sys_running demo_S5" by (simp add: demo_sys_defs)
  moreover have "demo_S6 = demo_S5\<lparr>sys_store := sys_store demo_S6, sys_pool := sys_pool demo_S5\<rparr>"
    by (simp add: demo_sys_defs)
  ultimately show ?thesis by (metis sys_loop)
qed

lemma run_reach6: "sys_reachable demo_cfg demo_parse demo_S6"
  using run_reach0 run_step1 run_step2 run_step3 run_step4 run_step5 run_step6 by (meson sys_next)

lemma run_step7: "sys_step demo_cfg demo_parse demo_S6 demo_S7"
proof -
  have "sys_running demo_S6" by (simp add: demo_sys_defs)
  then show ?thesis unfolding demo_S7_def by (rule sys_signal)
qed

lemma run_reach7: "sys_reachable demo_cfg demo_parse demo_S7"
  using run_reach6 run_step7 by (rule sys_next)

lemma run_step8: "sys_step demo_cfg demo_parse demo_S7 demo_S8"
proof -
  have "worker_wake 0 (sys_pool demo_S7) = Some ((sys_pool demo_S7)\<lparr>workers := [Exited]\<rparr>)"
    by (simp add: worker_wake_def demo_sys_defs shutdown_def)
  then show ?thesis unfolding demo_S8_def by (rule sys_wake)
qed

lemma run_star07: "(sys_step demo_cfg demo_parse)\<^sup>*\<^sup>* demo_S0 demo_S7"
  using run_step1 run_step2 run_step3 run_step4 run_step5 run_step6 run_step7
  by (meson rtranclp.rtrancl_into_rtrancl rtranclp.rtrancl_refl)

lemma demo_cfg_env: "read_config demo_env 8 = demo_cfg"
  by (simp add: read_config_def demo_cfg_def demo_env_def env_def atoi_def atol_def strtol_dec_def
      is_space_def is_digit_def string_to_nat_def digit_val_def Let_def)

lemma main_reach0: "main_reachable demo_env 8 demo_parse ConnOk ConnOk (MRun demo_S0, demo_io)"
proof -
  have s0: "store_inv store_empty" by (simp add: store_inv_def store_empty_def last_entry_id_def)
  have "main_step demo_env 8 demo_parse ConnOk ConnOk (MStart store_empty, [])
      (MRun demo_S0, [] @ main_connect (read_config demo_env 8) @ [Stdout entering_line])"
    unfolding demo_S0_def
    by (rule main_start) (simp_all add: conn_failed_def demo_cfg_env pool_create_def pool_size_def demo_cfg_def)
  then show ?thesis using main_next [OF main_init [OF s0]] by (simp add: demo_io_def demo_cfg_env)
qed

lemma main_reach7: "main_reachable demo_env 8 demo_parse ConnOk ConnOk (MRun demo_S7, demo_io)"
proof -
  have "(main_step demo_env 8 demo_parse ConnOk ConnOk)\<^sup>*\<^sup>* (MRun demo_S0, demo_io) (MRun demo_S7, demo_io)"
    using run_star07 by (intro main_run_star) (simp add: demo_cfg_env)
  then show ?thesis using main_reach0
    by (induction rule: rtranclp_induct) (auto intro: main_next)
qed

lemma main_reach_exit: "main_reachable demo_env 8 demo_parse ConnOk ConnOk (MExit 0 demo_S8, demo_io @ exit_io)"
proof -
  have "main_step demo_env 8 demo_parse ConnOk ConnOk (MRun demo_S7, demo_io) (MRun demo_S8, demo_io)"
    using run_step8 by (intro main_run) (simp add: demo_cfg_env)
  moreover have "main_step demo_env 8 demo_parse ConnOk ConnOk (MRun demo_S8, demo_io) (MExit 0 demo_S8, demo_io @ exit_io)"
    by (rule main_exit) (simp_all add: demo_sys_defs joined_def shutdown_def)
  ultimately show ?thesis using main_reach7 by (meson main_next)
qed

subsection \<open>Properties of the whole process\<close>

text \<open>
  C2: In every reachable state of the process, no stream entry has been dispatched to the
  pool twice: the stream ids of the submitted tasks are distinct.
\<close>

theorem dispatched_at_most_once: "sys_reachable cfg parse S \<Longrightarrow> distinct (map fst (submitted (sys_pool S)))"
  using sys_submitted_distinct sys_reachable_inv by blast

text \<open>
  C3: Acknowledged at most once: in every reachable state, no stream id has two outcomes
  that acknowledge it.
\<close>

theorem acked_at_most_once: "sys_reachable cfg parse S \<Longrightarrow> distinct (acked_ids (sys_outcomes S))"
proof -
  assume "sys_reachable cfg parse S"
  then have inv: "sys_inv S" by (rule sys_reachable_inv)
  then have "distinct (map fst (sys_outcomes S))" using sys_finished_distinct by (simp add: sys_inv_def)
  then show ?thesis by (simp add: acked_ids_def distinct_map_filter)
qed

text \<open>
  C1: A message whose task ended \<open>LeaveUnacknowledged\<close> stays pending in the group
  and has been dispatched exactly once, in every reachable state: the reply of
  \<open>XAUTOCLAIM\<close> is freed unread and \<open>XREADGROUP >\<close> never returns it again,
  so the retry by reclaim that the specification describes never happens.
\<close>

theorem pending_never_redispatched:
  "sys_reachable cfg parse S \<Longrightarrow> (sid, LeaveUnacknowledged) \<in> set (sys_outcomes S) \<Longrightarrow>
   parse_id sid \<in> set (map fst (pel (sys_store S))) \<and> count_list (map fst (submitted (sys_pool S))) sid = 1"
proof -
  assume "sys_reachable cfg parse S" and lv: "(sid, LeaveUnacknowledged) \<in> set (sys_outcomes S)"
  then have inv: "sys_inv S" by (simp add: sys_reachable_inv)
  have fd: "distinct (map fst (finished (sys_pool S)))" "set (finished (sys_pool S)) \<subseteq> set (submitted (sys_pool S))"
    using sys_finished_distinct [OF inv] by simp_all
  have om: "map fst (sys_outcomes S) = map fst (finished (sys_pool S))" using inv by (simp add: sys_inv_def)
  have "sid \<in> set (map fst (sys_outcomes S))" using lv by force
  then have sub: "sid \<in> set (map fst (submitted (sys_pool S)))" using om fd(2) by auto
  have "distinct (map fst (sys_outcomes S))" using om fd(1) by simp
  then have "sid \<notin> set (acked_ids (sys_outcomes S))" using lv eq_key_imp_eq_value by (fastforce simp: acked_ids_def)
  moreover have "parse_id sid \<in> set (map fst (pel (sys_store S))) \<longleftrightarrow> sid \<notin> set (acked_ids (sys_outcomes S))"
    using inv sub unfolding sys_inv_def by blast
  ultimately show ?thesis using distinct_count_list_1 [OF sys_submitted_distinct [OF inv] sub] by simp
qed

text \<open>
  C4: Shutdown: once the signal has ended the loop, the threads can run until all have
  returned, and then every dispatched message has exactly one outcome.
\<close>

theorem shutdown_drains:
  "sys_reachable cfg parse S \<Longrightarrow> \<not> sys_running S \<Longrightarrow>
   \<exists>S'. (sys_step cfg parse)\<^sup>*\<^sup>* S S' \<and> joined (sys_pool S') \<and>
        mset (map fst (sys_outcomes S')) = mset (map fst (submitted (sys_pool S)))"
proof -
  assume "sys_reachable cfg parse S" "\<not> sys_running S"
  then obtain S' where S': "(sys_step cfg parse)\<^sup>*\<^sup>* S S'" "joined (sys_pool S')"
      "submitted (sys_pool S') = submitted (sys_pool S)" "sys_reachable cfg parse S'"
    using sys_drain by blast
  then show ?thesis using sys_joined_outcomes [OF sys_reachable_inv [OF S'(4)] S'(2)] by auto
qed

subsection \<open>Witnesses\<close>

theorem consumer_cycle_dispatches_witness:
  "\<not> stop (sys_pool demo_S1) \<and> group_exists (sys_store demo_S1) \<and>
   [((0, 1), [(''payload'', ''p'')])] =
     (if cfg_batch_size demo_cfg \<le> 0 then filter (\<lambda>e. last_delivered (sys_store demo_S1) < fst e) (entries (sys_store demo_S1))
      else take (nat (cfg_batch_size demo_cfg)) (filter (\<lambda>e. last_delivered (sys_store demo_S1) < fst e) (entries (sys_store demo_S1)))) \<and>
   (\<exists>s'. consumer_cycle demo_cfg True (sys_store demo_S1) (sys_pool demo_S1) =
       Inr (s', (sys_pool demo_S1)\<lparr>tasks := tasks (sys_pool demo_S1) @ List.map_filter entry_task [((0, 1), [(''payload'', ''p'')])],
                  submitted := submitted (sys_pool demo_S1) @ List.map_filter entry_task [((0, 1), [(''payload'', ''p'')])]\<rparr>) \<and>
     delivered s' = delivered (sys_store demo_S1) @ map fst [((0, 1), [(''payload'', ''p'')])])"
proof -
  have ns: "\<not> stop (sys_pool demo_S1)" and g: "group_exists (sys_store demo_S1)" by (simp_all add: demo_sys_defs)
  have b: "[((0, 1), [(''payload'', ''p'')])] =
     (if cfg_batch_size demo_cfg \<le> 0 then filter (\<lambda>e. last_delivered (sys_store demo_S1) < fst e) (entries (sys_store demo_S1))
      else take (nat (cfg_batch_size demo_cfg)) (filter (\<lambda>e. last_delivered (sys_store demo_S1) < fst e) (entries (sys_store demo_S1))))"
    by (simp add: demo_sys_defs)
  show ?thesis using ns g b consumer_cycle_dispatches [OF ns g b] by blast
qed

theorem dispatched_at_most_once_witness:
  "sys_reachable demo_cfg demo_parse demo_S6 \<and> distinct (map fst (submitted (sys_pool demo_S6)))"
  using run_reach6 dispatched_at_most_once [OF run_reach6] by blast

theorem acked_at_most_once_witness:
  "sys_reachable demo_cfg demo_parse demo_S6 \<and> distinct (acked_ids (sys_outcomes demo_S6))"
  using run_reach6 acked_at_most_once [OF run_reach6] by blast

text \<open>The message whose post failed, after thirty seconds and another loop iteration:
  \<open>XAUTOCLAIM\<close> has reclaimed it (delivery count 2), and it is still pending, dispatched once.\<close>

theorem pending_never_redispatched_witness:
  "sys_reachable demo_cfg demo_parse demo_S6 \<and> (id_str (0, 1), LeaveUnacknowledged) \<in> set (sys_outcomes demo_S6) \<and>
   parse_id (id_str (0, 1)) \<in> set (map fst (pel (sys_store demo_S6))) \<and>
   count_list (map fst (submitted (sys_pool demo_S6))) (id_str (0, 1)) = 1 \<and>
   map (pe_count \<circ> snd) (pel (sys_store demo_S6)) = [2]"
proof -
  have o: "(id_str (0, 1), LeaveUnacknowledged) \<in> set (sys_outcomes demo_S6)" by (simp add: demo_sys_defs)
  have "map (pe_count \<circ> snd) (pel (sys_store demo_S6)) = [2]" by (simp add: demo_sys_defs)
  then show ?thesis using run_reach6 o pending_never_redispatched [OF run_reach6 o] by blast
qed

theorem shutdown_drains_witness:
  "sys_reachable demo_cfg demo_parse demo_S7 \<and> \<not> sys_running demo_S7 \<and>
   (\<exists>S'. (sys_step demo_cfg demo_parse)\<^sup>*\<^sup>* demo_S7 S' \<and> joined (sys_pool S') \<and>
        mset (map fst (sys_outcomes S')) = mset (map fst (submitted (sys_pool demo_S7))))"
proof -
  have "\<not> sys_running demo_S7" by (simp add: demo_S7_def)
  then show ?thesis using run_reach7 shutdown_drains [OF run_reach7] by blast
qed

theorem process_inv_witness: "sys_reachable demo_cfg demo_parse demo_S6 \<and> sys_inv demo_S6"
  using run_reach6 process_inv [OF run_reach6] by blast

theorem entry_payload_roundtrip_witness:
  "CHR 0x00 \<notin> set ''p'' \<and> ''p'' \<noteq> [] \<and> list_all (\<lambda>kv. cstr (fst kv) \<noteq> ''payload'') [(''src_ip'', ''x'')] \<and>
   map_option (\<lambda>(sid, x). (parse_id sid, x))
     (msg_task (entry_reply ((0, 1), [(''src_ip'', ''x''), (''payload'', ''p''), (''payload'', ''q'')]))) = Some ((0, 1), ''p'')"
proof -
  have h: "CHR 0x00 \<notin> set ''p''" "''p'' \<noteq> []" "list_all (\<lambda>kv. cstr (fst kv) \<noteq> ''payload'') [(''src_ip'', ''x'')]"
    by (simp_all add: cstr_def)
  show ?thesis using h entry_payload_roundtrip [OF h, of "(0, 1)" "[(''payload'', ''q'')]"] by simp
qed


theorem no_dispatch_after_shutdown_witness:
  "(sys_step demo_cfg demo_parse)\<^sup>*\<^sup>* demo_S7 demo_S8 \<and> \<not> sys_running demo_S7 \<and>
   \<not> sys_running demo_S8 \<and> submitted (sys_pool demo_S8) = submitted (sys_pool demo_S7) \<and>
   delivered (sys_store demo_S8) = delivered (sys_store demo_S7) \<and>
   last_delivered (sys_store demo_S8) = last_delivered (sys_store demo_S7)"
proof -
  have st: "(sys_step demo_cfg demo_parse)\<^sup>*\<^sup>* demo_S7 demo_S8" using run_step8 by blast
  have nr: "\<not> sys_running demo_S7" by (simp add: demo_S7_def)
  show ?thesis using st nr no_dispatch_after_shutdown [OF st nr] by blast
qed

theorem startup_connection_failure_witness:
  "conn_failed (ConnErr ''Connection refused'') \<and>
   main_step demo_env 8 demo_parse (ConnErr ''Connection refused'') ConnOk (MStart store_empty, [])
     (MFail 1 store_empty, main_connect demo_cfg @ [Stderr ''[main] Redis connection error: Connection refused'']) \<and>
   \<not> main_step demo_env 8 demo_parse (ConnErr ''Connection refused'') ConnOk (MFail 1 store_empty, []) (MStart store_empty, [])"
proof -
  have h: "conn_failed (ConnErr ''Connection refused'') \<or> conn_failed ConnOk" by (simp add: conn_failed_def)
  note f = startup_connection_failure [OF h, where e = demo_env and hw = 8 and parse = demo_parse and s = store_empty
      and io = "[]" and io' = "[]" and P'' = "(MStart store_empty, [])"
      and P' = "(MFail 1 store_empty, main_connect demo_cfg @ [Stderr ''[main] Redis connection error: Connection refused''])"]
  show ?thesis using f by (simp add: conn_failed_def demo_cfg_env connect_error_line_def conn_errstr_def)
qed

theorem clean_exit_drained_witness:
  "main_reachable demo_env 8 demo_parse ConnOk ConnOk (MExit 0 demo_S8, demo_io @ exit_io) \<and>
   joined (sys_pool demo_S8) \<and>
   mset (map fst (sys_outcomes demo_S8)) = mset (map fst (submitted (sys_pool demo_S8))) \<and>
   demo_io @ exit_io = main_connect (read_config demo_env 8) @ [Stdout entering_line] @ exit_io"
  using main_reach_exit clean_exit_drained [OF main_reach_exit] by blast

theorem shutdown_exits_witness:
  "main_reachable demo_env 8 demo_parse ConnOk ConnOk (MRun demo_S7, demo_io) \<and> \<not> sys_running demo_S7 \<and>
   (\<exists>S' io'. (main_step demo_env 8 demo_parse ConnOk ConnOk)\<^sup>*\<^sup>* (MRun demo_S7, demo_io) (MExit 0 S', io') \<and>
     mset (map fst (sys_outcomes S')) = mset (map fst (submitted (sys_pool demo_S7))))"
proof -
  have nr: "\<not> sys_running demo_S7" by (simp add: demo_S7_def)
  show ?thesis using main_reach7 nr shutdown_exits [OF main_reach7 nr] by blast
qed

end
